theory Spec2Isabelle
  imports Complex_Main
begin

section \<open>Exceptions and arrays\<close>

text \<open>
  The wrappers of \<^verbatim>\<open>wrappers/gym_wrappers.py\<close> are modelled as functions that return
  either a Python exception (\<open>Inl\<close>) or a result (\<open>Inr\<close>). An exception ends the call:
  what the objects look like afterwards is not described.
\<close>

datatype error =
    IndexError        \<comment> \<open>list or array index out of range\<close>
  | ValueError        \<comment> \<open>numpy: shapes or axes do not fit\<close>
  | AxisError         \<comment> \<open>numpy: the axis does not exist\<close>
  | NanResult         \<comment> \<open>not an exception: numpy yields NaN entries, which the reals of this model lack\<close>
  | UpstreamFailure   \<comment> \<open>the wrapped environment raised\<close>

definition and_then :: "error + 'a \<Rightarrow> ('a \<Rightarrow> error + 'b) \<Rightarrow> error + 'b" where
  "and_then m f = (case m of Inl e \<Rightarrow> Inl e | Inr x \<Rightarrow> f x)"

text \<open>
  A numpy array is its shape and its elements in row-major (C) order. Every array numpy
  builds has as many elements as its shape says (\<open>wf_array\<close>). Floating-point elements
  are real numbers; a cast to a floating-point format is a rounding function, a parameter
  of \<open>PreprocessImage\<close> and of the methods of \<open>EnvPool\<close>, whose arrays are float32.
\<close>

datatype 'e ndarray = NdArray (shape: "nat list") (data: "'e list")

definition wf_array :: "'e ndarray \<Rightarrow> bool" where
  "wf_array x = (length (data x) = prod_list (shape x))"

definition zeros :: "nat list \<Rightarrow> real ndarray" where
  "zeros s = NdArray s (replicate (prod_list s) 0)"

definition zeros_like :: "real ndarray \<Rightarrow> real ndarray" where
  "zeros_like x = zeros (shape x)"

text \<open>All index tuples of a shape in row-major order, and the flat position of one.\<close>

fun indices :: "nat list \<Rightarrow> nat list list" where
  "indices [] = [[]]"
| "indices (n # ns) = concat (map (\<lambda>i. map ((#) i) (indices ns)) [0..<n])"

definition offset :: "nat list \<Rightarrow> nat list \<Rightarrow> nat" where
  "offset s idx = foldl (\<lambda>acc (n, i). acc * n + i) 0 (zip s idx)"

fun index_of :: "nat \<Rightarrow> nat list \<Rightarrow> nat" where
  "index_of b [] = 0"
| "index_of b (a # as) = (if a = b then 0 else Suc (index_of b as))"

text \<open>
  \<^verbatim>\<open>np.transpose(x, axes)\<close>: axis \<open>k\<close> of the result is axis \<open>axes[k]\<close> of \<open>x\<close>;
  \<open>axes\<close> must be a permutation of the axes of \<open>x\<close>.
\<close>

definition np_transpose :: "'e ndarray \<Rightarrow> nat list \<Rightarrow> error + 'e ndarray" where
  "np_transpose x axes =
     (if sort axes \<noteq> [0..<length (shape x)] then Inl ValueError
      else
        let s' = map ((!) (shape x)) axes;
            src = (\<lambda>idx. map (\<lambda>b. idx ! index_of b axes) [0..<length axes])
        in Inr (NdArray s' (map (\<lambda>idx. data x ! offset (shape x) (src idx)) (indices s'))))"

text \<open>\<^verbatim>\<open>x.reshape(s)\<close>: the same elements in the same order; the sizes must agree.\<close>

definition np_reshape :: "'e ndarray \<Rightarrow> nat list \<Rightarrow> error + 'e ndarray" where
  "np_reshape x s =
     (if prod_list s = prod_list (shape x) then Inr (NdArray s (data x)) else Inl ValueError)"

text \<open>\<^verbatim>\<open>obs[None]\<close>: a new leading axis of length one.\<close>

definition expand_first :: "'e ndarray \<Rightarrow> 'e ndarray" where
  "expand_first x = NdArray (1 # shape x) (data x)"

text \<open>\<^verbatim>\<open>x[:-1]\<close>: all but the last entry along the first axis.\<close>

definition drop_last_row :: "'e ndarray \<Rightarrow> error + 'e ndarray" where
  "drop_last_row x =
     (case shape x of
        [] \<Rightarrow> Inl IndexError
      | n # s \<Rightarrow> Inr (NdArray ((n - 1) # s) (take ((n - 1) * prod_list s) (data x))))"

text \<open>\<^verbatim>\<open>x[i]\<close> for \<open>0 \<le> i\<close>: entry \<open>i\<close> along the first axis.\<close>

definition get_row :: "'e ndarray \<Rightarrow> nat \<Rightarrow> error + 'e ndarray" where
  "get_row x i =
     (case shape x of
        [] \<Rightarrow> Inl IndexError
      | n # s \<Rightarrow>
          if i < n then Inr (NdArray s (take (prod_list s) (drop (i * prod_list s) (data x))))
          else Inl IndexError)"

text \<open>
  \<^verbatim>\<open>np.vstack([a, b])\<close>: both arrays are made at least two-dimensional and joined along
  the first axis; all other axes must agree.
\<close>

definition atleast_2d :: "'e ndarray \<Rightarrow> 'e ndarray" where
  "atleast_2d x =
     (case shape x of
        [] \<Rightarrow> NdArray [1, 1] (data x)
      | [n] \<Rightarrow> NdArray [1, n] (data x)
      | _ \<Rightarrow> x)"

definition vstack2 :: "'e ndarray \<Rightarrow> 'e ndarray \<Rightarrow> error + 'e ndarray" where
  "vstack2 a b =
     (let a2 = atleast_2d a; b2 = atleast_2d b in
      if tl (shape a2) = tl (shape b2)
      then Inr (NdArray ((hd (shape a2) + hd (shape b2)) # tl (shape a2)) (data a2 @ data b2))
      else Inl ValueError)"

section \<open>Environments\<close>

text \<open>
  The wrapped simulator is outside this file. It is a class with \<open>reset\<close>, \<open>step\<close> and
  \<open>close\<close>, and a declared observation shape. Its objects live in a store of cells. The
  cell of an object holds the values of its attributes; an attribute that is a mutable
  object (an array changed in place, a wrapped inner environment) is the address of
  another cell. A method gets the address of its object and the store, and returns the
  store as it leaves it: it may write the object's own cell (an attribute is rebound) or
  a cell the object refers to (an object is changed in place).
\<close>

type_synonym addr = nat
type_synonym obs = "real ndarray"

record ('s, 'a, 'i) simulator =
  sim_reset :: "addr \<Rightarrow> (addr \<Rightarrow> 's) \<Rightarrow> error + (obs \<times> (addr \<Rightarrow> 's))"
  sim_step ::
    "addr \<Rightarrow> (addr \<Rightarrow> 's) \<Rightarrow> 'a \<Rightarrow> error + ((obs \<times> real \<times> bool \<times> 'i) \<times> (addr \<Rightarrow> 's))"
  sim_close :: "addr \<Rightarrow> (addr \<Rightarrow> 's) \<Rightarrow> error + (addr \<Rightarrow> 's)"
  sim_shape :: "nat list"

section \<open>FrameBuffer\<close>

record FrameBuffer =
  env :: addr
  framebuffer :: obs
  reshape_fn :: "obs \<Rightarrow> error + obs"
  observation_space :: "nat list"

text \<open>
  The automatic reshape function of \<open>__init__\<close>: \<open>shape_dims\<close> moves the frame axis to
  the end, \<open>result_shape\<close> is the shape of one observation with its last axis multiplied
  by \<open>n_frames\<close> (after a unit axis was appended to a one-axis shape).
\<close>

definition shape_dims :: "obs \<Rightarrow> nat list" where
  "shape_dims fb = (let d = [0..<length (shape fb)] in tl d @ [hd d])"

definition result_shape :: "nat list \<Rightarrow> nat \<Rightarrow> error + nat list" where
  "result_shape obs_shape n_frames =
     (let r = (if length obs_shape = 1 then obs_shape @ [1] else obs_shape) in
      if r = [] then Inl IndexError else Inr (butlast r @ [last r * n_frames]))"

definition auto_reshape :: "nat list \<Rightarrow> nat list \<Rightarrow> obs \<Rightarrow> error + obs" where
  "auto_reshape dims rs x = and_then (np_transpose x dims) (\<lambda>t. np_reshape t rs)"

definition FrameBuffer_init ::
  "addr \<Rightarrow> nat list \<Rightarrow> nat \<Rightarrow> (obs \<Rightarrow> error + obs) option \<Rightarrow> error + FrameBuffer" where
  "FrameBuffer_init e obs_shape n_frames reshape_opt =
     (let fb = zeros (n_frames # obs_shape) in
      and_then
        (case reshape_opt of
           Some f \<Rightarrow> Inr f
         | None \<Rightarrow>
             and_then (result_shape obs_shape n_frames)
               (\<lambda>rs. Inr (auto_reshape (shape_dims fb) rs)))
        (\<lambda>f. and_then (f fb)
           (\<lambda>out. Inr \<lparr>env = e, framebuffer = fb, reshape_fn = f,
                        observation_space = shape out\<rparr>)))"

text \<open>\<open>update_buffer\<close>: the new observation in front, the last frame dropped.\<close>

definition update_buffer :: "FrameBuffer \<Rightarrow> obs \<Rightarrow> error + FrameBuffer" where
  "update_buffer w ob =
     and_then (drop_last_row (framebuffer w))
       (\<lambda>older. and_then (vstack2 (expand_first ob) older)
          (\<lambda>fb. Inr (w\<lparr>framebuffer := fb\<rparr>)))"

definition FrameBuffer_reset ::
  "('s, 'a, 'i) simulator \<Rightarrow> FrameBuffer \<Rightarrow> (addr \<Rightarrow> 's) \<Rightarrow>
     error + (obs \<times> FrameBuffer \<times> (addr \<Rightarrow> 's))" where
  "FrameBuffer_reset sim w cells =
     (let w0 = w\<lparr>framebuffer := zeros_like (framebuffer w)\<rparr> in
      and_then (sim_reset sim (env w0) cells)
        (\<lambda>(ob, cells1). and_then (update_buffer w0 ob)
           (\<lambda>w1. and_then (reshape_fn w1 (framebuffer w1))
              (\<lambda>out. Inr (out, w1, cells1)))))"

definition FrameBuffer_step ::
  "('s, 'a, 'i) simulator \<Rightarrow> FrameBuffer \<Rightarrow> 'a \<Rightarrow> (addr \<Rightarrow> 's) \<Rightarrow>
     error + ((obs \<times> real \<times> bool \<times> 'i) \<times> FrameBuffer \<times> (addr \<Rightarrow> 's))" where
  "FrameBuffer_step sim w action cells =
     and_then (sim_step sim (env w) cells action)
       (\<lambda>((new_obs, r, done, info), cells1).
          and_then (update_buffer w new_obs)
            (\<lambda>w1. and_then (reshape_fn w1 (framebuffer w1))
               (\<lambda>out. Inr ((out, r, done, info), w1, cells1))))"

section \<open>EnvPool\<close>

text \<open>
  A slot of the pool holds either an environment object of the simulator (\<open>Plain\<close>,
  with its address) or a \<open>FrameBuffer\<close> around one. An environment that gym has
  wrapped, as the \<open>TimeLimit\<close> of \<open>gym.make\<close>, is an object of the simulator whose
  cell refers to the inner environment. A \<open>FrameBuffer\<close> keeps a reference to the
  environment it wraps; each \<open>FrameBuffer\<close> object is referenced from one place
  only, so it is held by value and replaced when a method changes it.
\<close>

datatype slot_env = Plain addr | Framed FrameBuffer

definition slot_shape :: "('s, 'a, 'i) simulator \<Rightarrow> slot_env \<Rightarrow> nat list" where
  "slot_shape sim e = (case e of Plain a \<Rightarrow> sim_shape sim | Framed w \<Rightarrow> observation_space w)"

definition slot_reset ::
  "('s, 'a, 'i) simulator \<Rightarrow> slot_env \<Rightarrow> (addr \<Rightarrow> 's) \<Rightarrow>
     error + (obs \<times> slot_env \<times> (addr \<Rightarrow> 's))" where
  "slot_reset sim e cells =
     (case e of
        Plain a \<Rightarrow>
          and_then (sim_reset sim a cells) (\<lambda>(ob, cells1). Inr (ob, Plain a, cells1))
      | Framed w \<Rightarrow>
          and_then (FrameBuffer_reset sim w cells)
            (\<lambda>(ob, w', cells'). Inr (ob, Framed w', cells')))"

definition slot_step ::
  "('s, 'a, 'i) simulator \<Rightarrow> slot_env \<Rightarrow> 'a \<Rightarrow> (addr \<Rightarrow> 's) \<Rightarrow>
     error + ((obs \<times> real \<times> bool \<times> 'i) \<times> slot_env \<times> (addr \<Rightarrow> 's))" where
  "slot_step sim e action cells =
     (case e of
        Plain a \<Rightarrow>
          and_then (sim_step sim a cells action)
            (\<lambda>(res, cells1). Inr (res, Plain a, cells1))
      | Framed w \<Rightarrow>
          and_then (FrameBuffer_step sim w action cells)
            (\<lambda>(res, w', cells'). Inr (res, Framed w', cells')))"

definition slot_close ::
  "('s, 'a, 'i) simulator \<Rightarrow> slot_env \<Rightarrow> (addr \<Rightarrow> 's) \<Rightarrow> error + (addr \<Rightarrow> 's)" where
  "slot_close sim e cells =
     sim_close sim (case e of Plain a \<Rightarrow> a | Framed w \<Rightarrow> env w) cells"

text \<open>
  The store: the environment objects, and the arrays of the pool and of its callers.
  The observation array of a pool has one row per slot, each of the shape \<open>env_shape\<close>.
\<close>

record 's heap =
  env_cells :: "addr \<Rightarrow> 's"
  env_next :: addr
  obs_arrays :: "addr \<Rightarrow> obs list"
  reward_arrays :: "addr \<Rightarrow> real list"
  done_arrays :: "addr \<Rightarrow> bool list"
  arr_next :: addr

definition new_obs_array :: "obs list \<Rightarrow> 's heap \<Rightarrow> addr \<times> 's heap" where
  "new_obs_array rows h =
     (arr_next h, h\<lparr>obs_arrays := (obs_arrays h)(arr_next h := rows), arr_next := Suc (arr_next h)\<rparr>)"

definition new_reward_array :: "real list \<Rightarrow> 's heap \<Rightarrow> addr \<times> 's heap" where
  "new_reward_array rs h =
     (arr_next h, h\<lparr>reward_arrays := (reward_arrays h)(arr_next h := rs), arr_next := Suc (arr_next h)\<rparr>)"

definition new_done_array :: "bool list \<Rightarrow> 's heap \<Rightarrow> addr \<times> 's heap" where
  "new_done_array ds h =
     (arr_next h, h\<lparr>done_arrays := (done_arrays h)(arr_next h := ds), arr_next := Suc (arr_next h)\<rparr>)"

text \<open>
  Assignment into the pool's arrays. The observation and reward arrays are float32
  arrays, so an assigned value is cast to float32: \<open>f32\<close>, a parameter of the pool's
  methods, rounds a real number to float32. \<^verbatim>\<open>a[i] = v\<close> on a one-axis array stores
  the cast of \<open>v\<close> (for the done array there is nothing to cast).
\<close>

definition set_item :: "('v \<Rightarrow> 'v) \<Rightarrow> 'v list \<Rightarrow> nat \<Rightarrow> 'v \<Rightarrow> error + 'v list" where
  "set_item cast xs i v = (if i < length xs then Inr (xs[i := cast v]) else Inl IndexError)"

text \<open>
  \<^verbatim>\<open>self._states[i] = v\<close> broadcasts \<open>v\<close> to the shape of the row and casts it. numpy
  first strips axes of length one from the left of the shape of \<open>v\<close> while it has
  more axes than the row, then pads it with axes of length one on the left; every axis
  must then have the row's length or length one, and an axis of length one is repeated.
  A value of the row's shape is taken as it is.
\<close>

fun strip_units :: "nat \<Rightarrow> nat list \<Rightarrow> nat list" where
  "strip_units n [] = []"
| "strip_units n (d # ds) = (if n < length (d # ds) \<and> d = 1 then strip_units n ds else d # ds)"

definition broadcast_to :: "'e ndarray \<Rightarrow> nat list \<Rightarrow> error + 'e ndarray" where
  "broadcast_to v t =
     (if shape v = t then Inr v
      else
        let s = strip_units (length t) (shape v) in
        if length t < length s then Inl ValueError
        else
          let pad = replicate (length t - length s) 1 @ s in
          if list_all2 (\<lambda>d n. d = n \<or> d = 1) pad t
          then Inr (NdArray t
                 (map (\<lambda>idx. data v ! offset pad (map2 (\<lambda>d i. if d = 1 then 0 else i) pad idx))
                    (indices t)))
          else Inl ValueError)"

definition astype :: "('e \<Rightarrow> 'e) \<Rightarrow> 'e ndarray \<Rightarrow> 'e ndarray" where
  "astype cast x = NdArray (shape x) (map cast (data x))"

text \<open>The row that the assignment of \<open>v\<close> stores.\<close>

definition row_value :: "(real \<Rightarrow> real) \<Rightarrow> nat list \<Rightarrow> obs \<Rightarrow> error + obs" where
  "row_value f32 row_shape v = and_then (broadcast_to v row_shape) (\<lambda>b. Inr (astype f32 b))"

definition set_row ::
  "(real \<Rightarrow> real) \<Rightarrow> nat list \<Rightarrow> obs list \<Rightarrow> nat \<Rightarrow> obs \<Rightarrow> error + obs list" where
  "set_row f32 row_shape rows i v =
     (if \<not> i < length rows then Inl IndexError
      else and_then (row_value f32 row_shape v) (\<lambda>row. Inr (rows[i := row])))"

record EnvPool =
  initial_env :: slot_env
  n_envs :: nat
  env_shape :: "nat list"
  envs :: "slot_env list"
  p_states :: addr
  p_rewards :: addr
  p_dones :: addr

text \<open>
  \<^verbatim>\<open>copy(self.initial_env)\<close> is a shallow copy: a new object with the same attribute
  values. For an environment object that is a new cell with the contents of the old one:
  what the old cell refers to, the new one refers to as well, so state that the
  environment keeps in an object of its own is shared by the copies, and state that it
  keeps in rebound attributes is not. For a \<open>FrameBuffer\<close> it is a new wrapper whose
  \<open>env\<close> is the same wrapped environment; its buffer is the array of the template,
  which no method changes in place (\<open>reset\<close> and \<open>update_buffer\<close> assign a new array).
\<close>

definition copy_env :: "slot_env \<Rightarrow> 's heap \<Rightarrow> slot_env \<times> 's heap" where
  "copy_env e h =
     (case e of
        Plain a \<Rightarrow>
          (Plain (env_next h),
           h\<lparr>env_cells := (env_cells h)(env_next h := env_cells h a),
             env_next := Suc (env_next h)\<rparr>)
      | Framed w \<Rightarrow> (Framed w, h))"

fun copy_n :: "nat \<Rightarrow> slot_env \<Rightarrow> 's heap \<Rightarrow> slot_env list \<times> 's heap" where
  "copy_n 0 e h = ([], h)"
| "copy_n (Suc n) e h =
     (let (c, h1) = copy_env e h; (cs, h2) = copy_n n e h1 in (c # cs, h2))"

fun close_loop ::
  "('s, 'a, 'i) simulator \<Rightarrow> slot_env list \<Rightarrow> (addr \<Rightarrow> 's) \<Rightarrow> error + (addr \<Rightarrow> 's)" where
  "close_loop sim [] cells = Inr cells"
| "close_loop sim (e # es) cells = and_then (slot_close sim e cells) (close_loop sim es)"

definition EnvPool_close ::
  "('s, 'a, 'i) simulator \<Rightarrow> EnvPool \<Rightarrow> 's heap \<Rightarrow> error + 's heap" where
  "EnvPool_close sim p h =
     and_then (close_loop sim (envs p) (env_cells h)) (\<lambda>cells. Inr (h\<lparr>env_cells := cells\<rparr>))"

definition recreate_envs ::
  "('s, 'a, 'i) simulator \<Rightarrow> EnvPool \<Rightarrow> 's heap \<Rightarrow> error + (EnvPool \<times> 's heap)" where
  "recreate_envs sim p h =
     and_then (EnvPool_close sim p h)
       (\<lambda>h1. let (cs, h2) = copy_n (n_envs p) (initial_env p) h1 in Inr (p\<lparr>envs := cs\<rparr>, h2))"

text \<open>One pass of the loop of \<open>reset\<close>: \<^verbatim>\<open>self._states[i] = env.reset()\<close>.\<close>

definition reset_slot ::
  "('s, 'a, 'i) simulator \<Rightarrow> (real \<Rightarrow> real) \<Rightarrow> EnvPool \<Rightarrow> nat \<Rightarrow> slot_env \<Rightarrow>
     's heap \<Rightarrow> error + (slot_env \<times> 's heap)" where
  "reset_slot sim f32 p i e h =
     and_then (slot_reset sim e (env_cells h))
       (\<lambda>(ob, e1, cells1).
          and_then (set_row f32 (env_shape p) (obs_arrays h (p_states p)) i ob)
            (\<lambda>rows. Inr (e1, h\<lparr>env_cells := cells1,
                                 obs_arrays := (obs_arrays h)(p_states p := rows)\<rparr>)))"

fun reset_loop ::
  "('s, 'a, 'i) simulator \<Rightarrow> (real \<Rightarrow> real) \<Rightarrow> EnvPool \<Rightarrow> nat \<Rightarrow> slot_env list \<Rightarrow> 's heap \<Rightarrow>
     error + (slot_env list \<times> 's heap)" where
  "reset_loop sim f32 p i [] h = Inr ([], h)"
| "reset_loop sim f32 p i (e # es) h =
     and_then (reset_slot sim f32 p i e h)
       (\<lambda>(e1, h1).
          and_then (reset_loop sim f32 p (Suc i) es h1) (\<lambda>(es1, h2). Inr (e1 # es1, h2)))"

definition EnvPool_reset ::
  "('s, 'a, 'i) simulator \<Rightarrow> (real \<Rightarrow> real) \<Rightarrow> EnvPool \<Rightarrow> 's heap \<Rightarrow> error + (addr \<times> EnvPool \<times> 's heap)" where
  "EnvPool_reset sim f32 p h =
     (let (sa, h1) = new_obs_array (replicate (n_envs p) (zeros (env_shape p))) h;
          (ra, h2) = new_reward_array (replicate (n_envs p) 0) h1;
          (da, h3) = new_done_array (replicate (n_envs p) False) h2;
          p1 = p\<lparr>p_states := sa, p_rewards := ra, p_dones := da\<rparr>
      in and_then (reset_loop sim f32 p1 0 (envs p1) h3)
           (\<lambda>(es, h4).
              let (c, h5) = new_obs_array (obs_arrays h4 (p_states p1)) h4
              in Inr (c, p1\<lparr>envs := es\<rparr>, h5)))"

text \<open>
  One pass of the loop of \<open>step\<close>, for slot \<open>i\<close>: step the environment, record reward
  and done flag, then store the new observation, or reset the environment and store the
  observation of the reset.
\<close>

definition step_slot ::
  "('s, 'a, 'i) simulator \<Rightarrow> (real \<Rightarrow> real) \<Rightarrow> EnvPool \<Rightarrow> nat \<Rightarrow> 'a \<Rightarrow> slot_env \<Rightarrow> 's heap \<Rightarrow>
     error + (slot_env \<times> 's heap)" where
  "step_slot sim f32 p i action e h =
     and_then (slot_step sim e action (env_cells h))
       (\<lambda>((new_s, r, done, info), e1, cells1).
          and_then (set_item f32 (reward_arrays h (p_rewards p)) i r)
            (\<lambda>rs.
               and_then (set_item id (done_arrays h (p_dones p)) i done)
                 (\<lambda>ds.
                    and_then
                      (if \<not> done then Inr (new_s, e1, cells1) else slot_reset sim e1 cells1)
                      (\<lambda>(s, e2, cells2).
                         and_then (set_row f32 (env_shape p) (obs_arrays h (p_states p)) i s)
                           (\<lambda>rows.
                              Inr (e2,
                                   h\<lparr>env_cells := cells2,
                                     obs_arrays := (obs_arrays h)(p_states p := rows),
                                     reward_arrays := (reward_arrays h)(p_rewards p := rs),
                                     done_arrays := (done_arrays h)(p_dones p := ds)\<rparr>))))))"

fun step_loop ::
  "('s, 'a, 'i) simulator \<Rightarrow> (real \<Rightarrow> real) \<Rightarrow> EnvPool \<Rightarrow> nat \<Rightarrow> ('a \<times> slot_env) list \<Rightarrow> 's heap \<Rightarrow>
     error + (slot_env list \<times> 's heap)" where
  "step_loop sim f32 p i [] h = Inr ([], h)"
| "step_loop sim f32 p i ((action, e) # rest) h =
     and_then (step_slot sim f32 p i action e h)
       (\<lambda>(e2, h1).
          and_then (step_loop sim f32 p (Suc i) rest h1) (\<lambda>(es1, h2). Inr (e2 # es1, h2)))"

text \<open>
  \<open>step\<close> returns the addresses of the three copies; the fourth component of the
  source's result is always \<open>None\<close>. \<open>zip\<close> stops at the shorter of the actions and the
  slots: the slots beyond it are left as they are.
\<close>

definition EnvPool_step ::
  "('s, 'a, 'i) simulator \<Rightarrow> (real \<Rightarrow> real) \<Rightarrow> EnvPool \<Rightarrow> 'a list \<Rightarrow> 's heap \<Rightarrow>
     error + ((addr \<times> addr \<times> addr) \<times> EnvPool \<times> 's heap)" where
  "EnvPool_step sim f32 p actions h =
     and_then (step_loop sim f32 p 0 (zip actions (envs p)) h)
       (\<lambda>(es, h1).
          let (c1, h2) = new_obs_array (obs_arrays h1 (p_states p)) h1;
              (c2, h3) = new_reward_array (reward_arrays h2 (p_rewards p)) h2;
              (c3, h4) = new_done_array (done_arrays h3 (p_dones p)) h3
          in Inr ((c1, c2, c3), p\<lparr>envs := es @ drop (length es) (envs p)\<rparr>, h4))"

definition pool_states :: "EnvPool \<Rightarrow> 's heap \<Rightarrow> addr \<times> 's heap" where
  "pool_states p h = new_obs_array (obs_arrays h (p_states p)) h"

text \<open>
  \<open>__init__\<close>. The three array attributes do not exist before the first \<open>reset\<close>, which
  assigns them without reading them; the record starts them at 0.
\<close>

definition EnvPool_init ::
  "('s, 'a, 'i) simulator \<Rightarrow> (real \<Rightarrow> real) \<Rightarrow> slot_env \<Rightarrow> nat \<Rightarrow> 's heap \<Rightarrow> error + (EnvPool \<times> 's heap)" where
  "EnvPool_init sim f32 template n h =
     (let p0 = \<lparr>initial_env = template, n_envs = n, env_shape = slot_shape sim template,
                envs = [], p_states = 0, p_rewards = 0, p_dones = 0\<rparr>
      in and_then (recreate_envs sim p0 h)
           (\<lambda>(p1, h1). and_then (EnvPool_reset sim f32 p1 h1) (\<lambda>(c, p2, h2). Inr (p2, h2))))"

section \<open>PreprocessImage\<close>

text \<open>
  Images are arrays of integer pixel values. The crop function is the caller's (the
  identity when none is given); \<open>imresize\<close> is scipy's and is a parameter of
  \<open>observation\<close>. Both may raise. The field \<open>image_space\<close> is the shape of the
  source's \<open>observation_space\<close>.
\<close>

record PreprocessImage =
  img_size :: "nat \<times> nat"
  grayscale :: bool
  crop :: "int ndarray \<Rightarrow> error + int ndarray"
  image_space :: "nat list"

definition PreprocessImage_init ::
  "nat \<Rightarrow> nat \<Rightarrow> bool \<Rightarrow> (int ndarray \<Rightarrow> error + int ndarray) option \<Rightarrow> PreprocessImage" where
  "PreprocessImage_init height width gray crop_opt =
     \<lparr>img_size = (height, width), grayscale = gray,
      crop = (case crop_opt of None \<Rightarrow> Inr | Some f \<Rightarrow> f),
      image_space = [height, width, if gray then 1 else 3]\<rparr>"

text \<open>
  \<^verbatim>\<open>img.mean(-1, keepdims=True)\<close>: the mean over the last axis, computed in float64
  (\<open>r64\<close> rounds a real number to float64; the sum of the pixel values is taken as
  exact, which it is for any image that fits in memory). The elements of the last axis
  are consecutive, so the means are taken over the \<open>n\<close> runs of \<open>c\<close> elements. numpy
  gives NaN for the mean of no elements.
\<close>

fun chunks :: "nat \<Rightarrow> nat \<Rightarrow> 'e list \<Rightarrow> 'e list list" where
  "chunks 0 c xs = []"
| "chunks (Suc n) c xs = take c xs # chunks n c (drop c xs)"

definition mean_last :: "(real \<Rightarrow> real) \<Rightarrow> int ndarray \<Rightarrow> error + real ndarray" where
  "mean_last r64 x =
     (if shape x = [] then Inl AxisError
      else
        let c = last (shape x); n = prod_list (butlast (shape x)) in
        if c = 0 \<and> 0 < n then Inl NanResult
        else Inr (NdArray (butlast (shape x) @ [1])
                    (map (\<lambda>ch. r64 (real_of_int (sum_list ch) / real c)) (chunks n c (data x)))))"

text \<open>
  \<open>_observation\<close>: crop, resize, average the channels if grayscale, cast to float32
  (\<open>r32\<close> rounds to float32) and divide by 255 in float32.
\<close>

definition observation ::
  "(real \<Rightarrow> real) \<Rightarrow> (real \<Rightarrow> real) \<Rightarrow>
     (int ndarray \<Rightarrow> nat \<times> nat \<Rightarrow> error + int ndarray) \<Rightarrow>
     PreprocessImage \<Rightarrow> int ndarray \<Rightarrow> error + real ndarray" where
  "observation r64 r32 imresize w img =
     and_then (crop w img)
       (\<lambda>img1. and_then (imresize img1 (img_size w))
          (\<lambda>img2.
             and_then
               (if grayscale w then mean_last r64 img2
                else Inr (NdArray (shape img2) (map real_of_int (data img2))))
               (\<lambda>img3.
                  Inr (NdArray (shape img3) (map (\<lambda>v. r32 (r32 v / 255)) (data img3))))))"

text \<open>
  What is assumed of the parts outside this file. Rounding to a floating-point format is
  monotone and leaves 0, 1 and 255 as they are. Cropping and resizing an image with
  pixels in 0..255 give pixels in 0..255, and resizing keeps the number of channels.
\<close>

definition rounding :: "(real \<Rightarrow> real) \<Rightarrow> bool" where
  "rounding r \<longleftrightarrow> mono r \<and> r 0 = 0 \<and> r 1 = 1 \<and> r 255 = 255"

definition pixel_range :: "int ndarray \<Rightarrow> bool" where
  "pixel_range x \<longleftrightarrow> (\<forall>v \<in> set (data x). 0 \<le> v \<and> v \<le> 255)"

definition keeps_range :: "(int ndarray \<Rightarrow> error + int ndarray) \<Rightarrow> bool" where
  "keeps_range f \<longleftrightarrow> (\<forall>x y. pixel_range x \<and> f x = Inr y \<longrightarrow> pixel_range y)"

definition keeps_channels ::
  "(int ndarray \<Rightarrow> nat \<times> nat \<Rightarrow> error + int ndarray) \<Rightarrow> bool" where
  "keeps_channels imresize \<longleftrightarrow>
     (\<forall>x h w y a b c. imresize x (h, w) = Inr y \<and> shape x = [a, b, c] \<longrightarrow> shape y = [h, w, c])"

section \<open>Sequences of calls\<close>

text \<open>Any sequence of \<open>reset\<close> and \<open>step\<close> calls on one \<open>FrameBuffer\<close>, with the
  observations the calls return.\<close>

datatype 'a fb_call = CallReset | CallStep 'a

fun fb_run ::
  "('s, 'a, 'i) simulator \<Rightarrow> 'a fb_call list \<Rightarrow> FrameBuffer \<Rightarrow> (addr \<Rightarrow> 's) \<Rightarrow>
     error + (obs list \<times> FrameBuffer \<times> (addr \<Rightarrow> 's))" where
  "fb_run sim [] w cells = Inr ([], w, cells)"
| "fb_run sim (c # cs) w cells =
     and_then
       (case c of
          CallReset \<Rightarrow> FrameBuffer_reset sim w cells
        | CallStep a \<Rightarrow>
            and_then (FrameBuffer_step sim w a cells)
              (\<lambda>((ob, r, done, info), w1, cells1). Inr (ob, w1, cells1)))
       (\<lambda>(ob, w1, cells1).
          and_then (fb_run sim cs w1 cells1)
            (\<lambda>(obs, w2, cells2). Inr (ob # obs, w2, cells2)))"

text \<open>One call of the pool's interface, with the addresses of the observation, reward
  and done arrays it returns.\<close>

datatype 'a pool_call = CallPoolReset | CallPoolStep "'a list" | CallPoolStates

definition pool_call ::
  "('s, 'a, 'i) simulator \<Rightarrow> (real \<Rightarrow> real) \<Rightarrow> 'a pool_call \<Rightarrow> EnvPool \<Rightarrow> 's heap \<Rightarrow>
     error + ((addr list \<times> addr list \<times> addr list) \<times> EnvPool \<times> 's heap)" where
  "pool_call sim f32 c p h =
     (case c of
        CallPoolReset \<Rightarrow>
          and_then (EnvPool_reset sim f32 p h) (\<lambda>(a, p1, h1). Inr (([a], [], []), p1, h1))
      | CallPoolStep actions \<Rightarrow>
          and_then (EnvPool_step sim f32 p actions h)
            (\<lambda>((a, b, c), p1, h1). Inr (([a], [b], [c]), p1, h1))
      | CallPoolStates \<Rightarrow> (let (a, h1) = pool_states p h in Inr (([a], [], []), p, h1)))"

text \<open>
  Resetting every environment of a list once, in order: the observations, the
  environments afterwards and the store afterwards. This is what the specification of
  \<open>reset\<close> describes; \<open>reset_loop\<close> is what the source does.
\<close>

fun reset_all ::
  "('s, 'a, 'i) simulator \<Rightarrow> slot_env list \<Rightarrow> (addr \<Rightarrow> 's) \<Rightarrow>
     error + (obs list \<times> slot_env list \<times> (addr \<Rightarrow> 's))" where
  "reset_all sim [] cells = Inr ([], [], cells)"
| "reset_all sim (e # es) cells =
     and_then (slot_reset sim e cells)
       (\<lambda>(ob, e1, cells1).
          and_then (reset_all sim es cells1)
            (\<lambda>(obs, es1, cells2). Inr (ob # obs, e1 # es1, cells2)))"

text \<open>The environment object a slot steps: itself, or the one its wrapper refers to.\<close>

definition slot_addr :: "slot_env \<Rightarrow> addr" where
  "slot_addr e = (case e of Plain a \<Rightarrow> a | Framed w \<Rightarrow> env w)"

section \<open>What a call may change\<close>

text \<open>
  \<open>rows_changed p lo hi h h1\<close>: from \<open>h\<close> to \<open>h1\<close> nothing was allocated, and of the
  arrays only the entries \<open>lo \<le> j < hi\<close> of the pool's own three arrays may differ.
\<close>

definition rows_changed :: "EnvPool \<Rightarrow> nat \<Rightarrow> nat \<Rightarrow> 's heap \<Rightarrow> 's heap \<Rightarrow> bool" where
  "rows_changed p lo hi h h1 \<longleftrightarrow>
     arr_next h1 = arr_next h \<and> env_next h1 = env_next h
     \<and> (\<forall>a. a \<noteq> p_states p \<longrightarrow> obs_arrays h1 a = obs_arrays h a)
     \<and> (\<forall>a. a \<noteq> p_rewards p \<longrightarrow> reward_arrays h1 a = reward_arrays h a)
     \<and> (\<forall>a. a \<noteq> p_dones p \<longrightarrow> done_arrays h1 a = done_arrays h a)
     \<and> length (obs_arrays h1 (p_states p)) = length (obs_arrays h (p_states p))
     \<and> length (reward_arrays h1 (p_rewards p)) = length (reward_arrays h (p_rewards p))
     \<and> length (done_arrays h1 (p_dones p)) = length (done_arrays h (p_dones p))
     \<and> (\<forall>j. j < lo \<or> hi \<le> j \<longrightarrow>
            obs_arrays h1 (p_states p) ! j = obs_arrays h (p_states p) ! j
            \<and> reward_arrays h1 (p_rewards p) ! j = reward_arrays h (p_rewards p) ! j
            \<and> done_arrays h1 (p_dones p) ! j = done_arrays h (p_dones p) ! j)"

text \<open>
  \<open>pool_alloc\<close>: the pool's three arrays are allocated. \<open>returned_copies\<close>: every
  returned array was allocated by the call, is not the pool's own array, holds what the
  pool's array holds, and a write to it leaves the pool's array as it is.
  \<open>held_arrays_kept\<close>: every array that existed before the call, other than the pool's
  own, holds what it held.
\<close>

definition pool_alloc :: "EnvPool \<Rightarrow> 's heap \<Rightarrow> bool" where
  "pool_alloc p h \<longleftrightarrow>
     p_states p < arr_next h \<and> p_rewards p < arr_next h \<and> p_dones p < arr_next h"

definition returned_copies ::
  "'s heap \<Rightarrow> EnvPool \<Rightarrow> 's heap \<Rightarrow> addr list \<times> addr list \<times> addr list \<Rightarrow> bool" where
  "returned_copies h p1 h1 ret \<longleftrightarrow>
     (case ret of (os, rs, ds) \<Rightarrow>
        (\<forall>a \<in> set os. arr_next h \<le> a \<and> a < arr_next h1 \<and> a \<noteq> p_states p1
            \<and> obs_arrays h1 a = obs_arrays h1 (p_states p1)
            \<and> (\<forall>rows. obs_arrays (h1\<lparr>obs_arrays := (obs_arrays h1)(a := rows)\<rparr>) (p_states p1)
                        = obs_arrays h1 (p_states p1)))
      \<and> (\<forall>a \<in> set rs. arr_next h \<le> a \<and> a < arr_next h1 \<and> a \<noteq> p_rewards p1
            \<and> reward_arrays h1 a = reward_arrays h1 (p_rewards p1)
            \<and> (\<forall>vs. reward_arrays (h1\<lparr>reward_arrays := (reward_arrays h1)(a := vs)\<rparr>)
                        (p_rewards p1) = reward_arrays h1 (p_rewards p1)))
      \<and> (\<forall>a \<in> set ds. arr_next h \<le> a \<and> a < arr_next h1 \<and> a \<noteq> p_dones p1
            \<and> done_arrays h1 a = done_arrays h1 (p_dones p1)
            \<and> (\<forall>vs. done_arrays (h1\<lparr>done_arrays := (done_arrays h1)(a := vs)\<rparr>)
                        (p_dones p1) = done_arrays h1 (p_dones p1))))"

definition held_arrays_kept :: "EnvPool \<Rightarrow> 's heap \<Rightarrow> 's heap \<Rightarrow> bool" where
  "held_arrays_kept p h h1 \<longleftrightarrow>
     (\<forall>a. a < arr_next h \<and> a \<noteq> p_states p \<longrightarrow> obs_arrays h1 a = obs_arrays h a)
     \<and> (\<forall>a. a < arr_next h \<and> a \<noteq> p_rewards p \<longrightarrow> reward_arrays h1 a = reward_arrays h a)
     \<and> (\<forall>a. a < arr_next h \<and> a \<noteq> p_dones p \<longrightarrow> done_arrays h1 a = done_arrays h a)"

section \<open>An example environment\<close>

text \<open>
  An environment that counts its steps and its episodes. Its observation is the pair
  (\<open>b\<close> + steps in this episode, episodes), in the shape \<open>s\<close>; the reward is \<open>b\<close> + the
  number of steps; action 1 ends the episode. The two counters are either attributes of
  the environment object itself, rebound by every call (\<open>Counter\<close>), or they are held by
  an inner object that the environment refers to and changes in place (\<open>Shared\<close>, as an
  environment inside a gym wrapper): \<open>counter_at\<close> is the address of the cell that holds
  them.
\<close>

datatype cell = Counter nat nat | Shared addr

definition counter_at :: "addr \<Rightarrow> (addr \<Rightarrow> cell) \<Rightarrow> addr" where
  "counter_at a cells = (case cells a of Counter t ep \<Rightarrow> a | Shared c \<Rightarrow> c)"

definition counter_sim :: "nat list \<Rightarrow> real \<Rightarrow> (cell, nat, unit) simulator" where
  "counter_sim s b =
     \<lparr>sim_reset = (\<lambda>a cells.
         case cells (counter_at a cells) of
           Counter t ep \<Rightarrow>
             Inr (NdArray s [b, real (Suc ep)], cells(counter_at a cells := Counter 0 (Suc ep)))
         | Shared c \<Rightarrow> Inl UpstreamFailure),
      sim_step = (\<lambda>a cells act.
         case cells (counter_at a cells) of
           Counter t ep \<Rightarrow>
             Inr ((NdArray s [b + real (Suc t), real ep], b + real (Suc t), act = 1, ()),
                  cells(counter_at a cells := Counter (Suc t) ep))
         | Shared c \<Rightarrow> Inl UpstreamFailure),
      sim_close = (\<lambda>a cells. Inr cells),
      sim_shape = s\<rparr>"

text \<open>
  The float32 rounding on the numbers of the examples: an integer up to \<open>2 ^ 24\<close> and
  16777218 are float32 numbers; 16777217 lies halfway between two of them and is rounded
  to the even one, 16777216.
\<close>

definition f32_example :: "real \<Rightarrow> real" where
  "f32_example x = (if x = 16777217 then 16777216 else x)"

text \<open>
  \<open>start_heap\<close> holds one environment with counters of its own, at address 0, that has
  not been reset yet. \<open>inner_heap\<close> holds, at address 0, an environment that refers to
  the inner object at address 1.
\<close>

definition start_heap :: "cell heap" where
  "start_heap =
     \<lparr>env_cells = (\<lambda>a. Counter 0 0), env_next = 1, obs_arrays = (\<lambda>a. []),
      reward_arrays = (\<lambda>a. []), done_arrays = (\<lambda>a. []), arr_next = 0\<rparr>"

definition inner_heap :: "cell heap" where
  "inner_heap =
     \<lparr>env_cells = (\<lambda>a. if a = 0 then Shared 1 else Counter 0 0), env_next = 2,
      obs_arrays = (\<lambda>a. []), reward_arrays = (\<lambda>a. []), done_arrays = (\<lambda>a. []),
      arr_next = 0\<rparr>"

text \<open>The pool of three environments and the store, as the constructor leaves them from
  \<open>start_heap\<close>.\<close>

definition pool3 :: EnvPool where
  "pool3 = \<lparr>initial_env = Plain 0, n_envs = 3, env_shape = [2],
             envs = [Plain 1, Plain 2, Plain 3], p_states = 0, p_rewards = 1, p_dones = 2\<rparr>"

definition heap3 :: "cell heap" where
  "heap3 =
     \<lparr>env_cells = (\<lambda>a. if a = 0 then Counter 0 0 else Counter 0 1), env_next = 4,
      obs_arrays = (\<lambda>a. if a = 0 \<or> a = 3 then replicate 3 (NdArray [2] [0, 1]) else []),
      reward_arrays = (\<lambda>a. if a = 1 then [0, 0, 0] else []),
      done_arrays = (\<lambda>a. if a = 2 then [False, False, False] else []),
      arr_next = 4\<rparr>"

text \<open>The store after one more call, \<open>step\<close> with the actions \<open>[0, 0, 0]\<close>.\<close>

definition heap3b :: "cell heap" where
  "heap3b =
     \<lparr>env_cells = (\<lambda>a. if a = 0 then Counter 0 0 else Counter 1 1), env_next = 4,
      obs_arrays = (\<lambda>a. if a = 0 \<or> a = 4 then replicate 3 (NdArray [2] [1, 1])
                         else if a = 3 then replicate 3 (NdArray [2] [0, 1]) else []),
      reward_arrays = (\<lambda>a. if a = 1 \<or> a = 5 then [1, 1, 1] else []),
      done_arrays = (\<lambda>a. if a = 2 \<or> a = 6 then [False, False, False] else []),
      arr_next = 7\<rparr>"

text \<open>The contents of all allocated objects of a store.\<close>

definition heap_view ::
  "'s heap \<Rightarrow> 's list \<times> obs list list \<times> real list list \<times> bool list list" where
  "heap_view h =
     (map (env_cells h) [0..<env_next h], map (obs_arrays h) [0..<arr_next h],
      map (reward_arrays h) [0..<arr_next h], map (done_arrays h) [0..<arr_next h])"

text \<open>A \<open>FrameBuffer\<close> of two frames around the environment at address 0.\<close>

definition buffer2 :: FrameBuffer where
  "buffer2 = \<lparr>env = 0, framebuffer = zeros [2, 2],
               reshape_fn = auto_reshape [1, 0] [2, 2], observation_space = [2, 2]\<rparr>"

text \<open>A stand-in for the resize: every pixel of the result is the first pixel of the
  image.\<close>

definition fill_resize :: "int ndarray \<Rightarrow> nat \<times> nat \<Rightarrow> error + int ndarray" where
  "fill_resize x hw =
     (case (shape x, data x) of
        ([a, b, c], v # vs) \<Rightarrow>
          Inr (NdArray [fst hw, snd hw, c] (replicate (fst hw * snd hw * c) v))
      | _ \<Rightarrow> Inl ValueError)"

section \<open>Basic facts\<close>

lemma and_then_Inr [simp]: "and_then (Inr x) f = f x"
  by (simp add: and_then_def)

lemma and_then_Inl [simp]: "and_then (Inl e) f = Inl e"
  by (simp add: and_then_def)

lemma and_then_eq_Inr:
  "and_then m f = Inr y \<longleftrightarrow> (\<exists>x. m = Inr x \<and> f x = Inr y)"
  by (cases m) simp_all

lemma set_item_eq_Inr:
  "set_item cast xs i v = Inr ys \<longleftrightarrow> i < length xs \<and> ys = xs[i := cast v]"
  by (auto simp: set_item_def)

lemma set_row_eq_Inr:
  "set_row f32 s rows i v = Inr ys \<longleftrightarrow>
     i < length rows \<and> (\<exists>row. row_value f32 s v = Inr row \<and> ys = rows[i := row])"
  by (auto simp: set_row_def and_then_eq_Inr)

lemma broadcast_to_examples:
  "broadcast_to (NdArray [2] [1, 2 :: int]) [2, 2] = Inr (NdArray [2, 2] [1, 2, 1, 2])
   \<and> broadcast_to (NdArray [2, 1] [1, 2 :: int]) [2, 2] = Inr (NdArray [2, 2] [1, 1, 2, 2])
   \<and> broadcast_to (NdArray [1, 1, 2] [1, 2 :: int]) [2] = Inr (NdArray [2] [1, 2])
   \<and> broadcast_to (NdArray [] [7 :: int]) [2] = Inr (NdArray [2] [7, 7])
   \<and> broadcast_to (NdArray [3] [1, 2, 3 :: int]) [2] = Inl ValueError
   \<and> broadcast_to (NdArray [2, 2] [1, 2, 3, 4 :: int]) [2] = Inl ValueError"
  by (simp add: broadcast_to_def offset_def Let_def eval_nat_numeral)

lemma row_value_same_shape: "shape v = s \<Longrightarrow> row_value f32 s v = Inr (astype f32 v)"
  by (simp add: row_value_def broadcast_to_def)

lemma astype_exact: "\<forall>x \<in> set (data v). cast x = x \<Longrightarrow> astype cast v = v"
  by (cases v) (simp add: astype_def map_idI)

lemma shape_row_value: "row_value f32 s v = Inr row \<Longrightarrow> shape row = s"
  by (auto simp: row_value_def broadcast_to_def astype_def and_then_eq_Inr Let_def
      split: if_splits)

section \<open>The exported shape of a FrameBuffer\<close>

lemma shape_dims_zeros: "shape_dims (zeros (k # s)) = [Suc 0..<Suc (length s)] @ [0]"
  by (simp add: shape_dims_def zeros_def Let_def del: upt_Suc)

lemma sort_rotated: "sort ([Suc 0..<Suc n] @ [0]) = [0..<Suc n]"
proof (rule sorted_distinct_set_unique)
  show "set (sort ([Suc 0..<Suc n] @ [0])) = set [0..<Suc n]" by auto
  show "sorted [0..<Suc n]" by (rule sorted_upt)
  show "distinct [0..<Suc n]" by (rule distinct_upt)
qed (simp_all del: upt_Suc)

lemma map_nth_rotated: "map ((!) (k # s)) ([Suc 0..<Suc (length s)] @ [0]) = s @ [k]"
proof -
  have "map ((!) (k # s)) [Suc 0..<Suc (length s)] = map ((!) s) [0..<length s]"
    unfolding map_Suc_upt [symmetric] by (simp del: upt_Suc)
  then show ?thesis by (simp add: map_nth)
qed

lemma np_transpose_rotated:
  "length (shape x) = Suc n \<Longrightarrow>
   \<exists>t. np_transpose x ([Suc 0..<Suc n] @ [0]) = Inr t \<and> shape t = tl (shape x) @ [hd (shape x)]"
  using map_nth_rotated [of "hd (shape x)" "tl (shape x)"]
  by (cases "shape x") (simp_all add: np_transpose_def Let_def sort_rotated del: upt_Suc)

lemma auto_reshape_zeros:
  assumes "prod_list rs = k * prod_list s"
  shows "\<exists>out. auto_reshape ([Suc 0..<Suc (length s)] @ [0]) rs (zeros (k # s)) = Inr out
           \<and> shape out = rs"
proof -
  obtain t where t: "np_transpose (zeros (k # s)) ([Suc 0..<Suc (length s)] @ [0]) = Inr t"
    "shape t = s @ [k]"
    using np_transpose_rotated [of "zeros (k # s)" "length s"] by (auto simp: zeros_def)
  show ?thesis using assms t by (simp add: auto_reshape_def np_reshape_def)
qed

lemma shape_auto_reshape: "auto_reshape dims rs x = Inr out \<Longrightarrow> shape out = rs"
  by (auto simp: auto_reshape_def np_reshape_def and_then_eq_Inr split: if_splits)

lemma prod_list_butlast_last:
  "s \<noteq> [] \<Longrightarrow> prod_list (butlast s @ [last s * k]) = k * prod_list (s :: nat list)"
  by (induction s) auto

lemma FrameBuffer_init_stacked:
  assumes "2 \<le> length s"
  shows "FrameBuffer_init e s k None =
     Inr \<lparr>env = e, framebuffer = zeros (k # s),
          reshape_fn = auto_reshape ([Suc 0..<Suc (length s)] @ [0]) (butlast s @ [last s * k]),
          observation_space = butlast s @ [last s * k]\<rparr>"
proof -
  from assms have ne: "s \<noteq> []" and l: "length s \<noteq> 1" by auto
  obtain out where
    "auto_reshape ([Suc 0..<Suc (length s)] @ [0]) (butlast s @ [last s * k]) (zeros (k # s)) = Inr out"
    "shape out = butlast s @ [last s * k]"
    using auto_reshape_zeros [OF prod_list_butlast_last [OF ne]] by blast
  then show ?thesis using ne l
    by (simp add: FrameBuffer_init_def result_shape_def shape_dims_zeros del: upt_Suc)
qed

text \<open>
  C3, as the code has it. Around an environment whose observations are flat vectors of
  length \<open>features\<close>, the constructor of \<open>FrameBuffer\<close> with the automatic reshape
  function succeeds for every \<open>n_frames\<close>, and the exported observation shape is the
  two-axis shape \<open>(features, n_frames)\<close>: the unit axis appended to the flat shape is the
  one multiplied by \<open>n_frames\<close>.
\<close>

theorem FrameBuffer_init_flat:
  "FrameBuffer_init e [features] k None =
     Inr \<lparr>env = e, framebuffer = zeros [k, features],
          reshape_fn = auto_reshape [Suc 0, 0] [features, k],
          observation_space = [features, k]\<rparr>"
proof -
  obtain out where
    "auto_reshape ([Suc 0..<Suc (length [features])] @ [0]) [features, k] (zeros (k # [features])) = Inr out"
    "shape out = [features, k]"
    using auto_reshape_zeros [of "[features, k]" k "[features]"] by auto
  then show ?thesis
    by (simp add: FrameBuffer_init_def result_shape_def shape_dims_zeros)
qed

text \<open>
  C3, as the claim states it, fails: for \<open>features = 4\<close> and \<open>n_frames = 2\<close> the exported
  shape is \<open>(4, 2)\<close>, not the one-axis shape \<open>(8,)\<close>.
\<close>

theorem FrameBuffer_flat_shape_counterexample:
  "map_sum id observation_space (FrameBuffer_init 0 [4] 2 None) = Inr [4, 2]
   \<and> map_sum id observation_space (FrameBuffer_init 0 [4] 2 None) \<noteq> Inr [4 * 2]"
  by (simp add: FrameBuffer_init_def result_shape_def shape_dims_def zeros_def auto_reshape_def
      np_transpose_def np_reshape_def Let_def)

lemma update_buffer_fields:
  "update_buffer w ob = Inr w1 \<Longrightarrow>
     reshape_fn w1 = reshape_fn w \<and> observation_space w1 = observation_space w \<and> env w1 = env w"
  by (auto simp: update_buffer_def and_then_eq_Inr)

lemma FrameBuffer_reset_fields:
  assumes "FrameBuffer_reset sim w cells = Inr (ob, w1, cells1)"
  shows "reshape_fn w1 = reshape_fn w \<and> observation_space w1 = observation_space w
         \<and> env w1 = env w \<and> reshape_fn w (framebuffer w1) = Inr ob"
  using assms update_buffer_fields
  by (fastforce simp: FrameBuffer_reset_def and_then_eq_Inr Let_def)

lemma FrameBuffer_step_fields:
  assumes "FrameBuffer_step sim w a cells = Inr ((ob, r, d, i), w1, cells1)"
  shows "reshape_fn w1 = reshape_fn w \<and> observation_space w1 = observation_space w
         \<and> env w1 = env w \<and> reshape_fn w (framebuffer w1) = Inr ob"
  using assms update_buffer_fields
  by (fastforce simp: FrameBuffer_step_def and_then_eq_Inr)

lemma fb_run_shapes:
  assumes "fb_run sim calls w cells = Inr (outs, w1, cells1)"
    and "reshape_fn w = auto_reshape dims rs"
  shows "reshape_fn w1 = reshape_fn w \<and> observation_space w1 = observation_space w
         \<and> (\<forall>ob \<in> set outs. shape ob = rs)"
  using assms
proof (induction calls arbitrary: w cells outs)
  case Nil
  then show ?case by simp
next
  case (Cons c cs)
  from Cons.prems(1) obtain ob w2 cells2 outs2 where
    head: "(case c of
          CallReset \<Rightarrow> FrameBuffer_reset sim w cells
        | CallStep a \<Rightarrow>
            and_then (FrameBuffer_step sim w a cells)
              (\<lambda>((ob, r, done, info), w1, cells1). Inr (ob, w1, cells1))) = Inr (ob, w2, cells2)"
    and rest: "fb_run sim cs w2 cells2 = Inr (outs2, w1, cells1)"
    and outs: "outs = ob # outs2"
    by (auto simp: and_then_eq_Inr)
  have w2: "reshape_fn w2 = reshape_fn w \<and> observation_space w2 = observation_space w
         \<and> reshape_fn w (framebuffer w2) = Inr ob"
  proof (cases c)
    case CallReset
    with head show ?thesis using FrameBuffer_reset_fields by fastforce
  next
    case (CallStep a)
    with head show ?thesis using FrameBuffer_step_fields
      by (fastforce simp: and_then_eq_Inr)
  qed
  with Cons.prems(2) have ob: "shape ob = rs"
    using shape_auto_reshape by metis
  from w2 Cons.prems(2) have "reshape_fn w2 = auto_reshape dims rs" by simp
  from Cons.IH [OF rest this] w2 ob outs show ?case by simp
qed

text \<open>
  C8. For a base observation shape \<open>s\<close> with at least two axes and every \<open>n_frames = k\<close>,
  the constructor of \<open>FrameBuffer\<close> succeeds and exports the shape
  \<open>(*s[:-1], s[-1] * k)\<close>. After any sequence of \<open>reset\<close> and \<open>step\<close> calls that
  returns, the exported shape is the same, and every observation the calls returned has
  that shape.
\<close>

theorem FrameBuffer_shape_fixed:
  assumes "2 \<le> length s"
  shows "\<exists>w. FrameBuffer_init e s k None = Inr w
           \<and> observation_space w = butlast s @ [last s * k]
           \<and> (\<forall>calls cells outs w1 cells1.
                 fb_run sim calls w cells = Inr (outs, w1, cells1) \<longrightarrow>
                   observation_space w1 = butlast s @ [last s * k]
                   \<and> (\<forall>ob \<in> set outs. shape ob = butlast s @ [last s * k]))"
proof -
  let ?rs = "butlast s @ [last s * k]"
  let ?w = "\<lparr>env = e, framebuffer = zeros (k # s),
          reshape_fn = auto_reshape ([Suc 0..<Suc (length s)] @ [0]) ?rs,
          observation_space = ?rs\<rparr>"
  have init: "FrameBuffer_init e s k None = Inr ?w"
    by (rule FrameBuffer_init_stacked [OF assms])
  have run: "observation_space w1 = ?rs \<and> (\<forall>ob \<in> set outs. shape ob = ?rs)"
    if "fb_run sim calls ?w cells = Inr (outs, w1, cells1)" for calls cells outs w1 cells1
    using fb_run_shapes [OF that, of "[Suc 0..<Suc (length s)] @ [0]" ?rs] by simp
  from init run show ?thesis by (intro exI [of _ ?w]) simp
qed

text \<open>
  C8 at a concrete input: observations of shape \<open>(1, 2)\<close>, two frames. The exported shape
  is \<open>(1, 4)\<close>, before and after a reset, a step and another reset, and the three
  observations have that shape.
\<close>

lemmas fb_defs = FrameBuffer_reset_def FrameBuffer_step_def update_buffer_def drop_last_row_def
  expand_first_def vstack2_def atleast_2d_def auto_reshape_def np_transpose_def np_reshape_def
  zeros_like_def zeros_def offset_def get_row_def wf_array_def

theorem FrameBuffer_shape_fixed_witness:
  "2 \<le> length [1, 2 :: nat]
   \<and> map_sum id observation_space (FrameBuffer_init 0 [1, 2] 2 None) = Inr [1, 4]
   \<and> map_sum id (\<lambda>(outs, w1, cells1). (map shape outs, observation_space w1))
        (and_then (FrameBuffer_init 0 [1, 2] 2 None)
           (\<lambda>w. fb_run (counter_sim [1, 2] 0) [CallReset, CallStep 0, CallReset] w
                  (\<lambda>a. Counter 0 0)))
       = Inr ([[1, 4], [1, 4], [1, 4]], [1, 4])"
  using FrameBuffer_shape_fixed [of "[1, 2]" 0 2 "counter_sim [1, 2] 0"]
  by (simp add: FrameBuffer_init_def result_shape_def shape_dims_def counter_sim_def
      counter_at_def fb_defs Let_def numeral_2_eq_2 numeral_3_eq_3)

section \<open>The frames of a FrameBuffer\<close>

lemma atleast_2d_id: "s \<noteq> [] \<Longrightarrow> atleast_2d (NdArray (n # s) d) = NdArray (n # s) d"
  by (cases s) (simp_all add: atleast_2d_def)

lemma update_buffer_eq:
  assumes "shape (framebuffer w) = k # s" and "1 \<le> k" and "s \<noteq> []" and "shape ob = s"
  shows "update_buffer w ob =
     Inr (w\<lparr>framebuffer :=
              NdArray (k # s) (data ob @ take ((k - 1) * prod_list s) (data (framebuffer w)))\<rparr>)"
  using assms
  by (simp add: update_buffer_def drop_last_row_def expand_first_def vstack2_def atleast_2d_id)

lemma get_row_first:
  assumes "wf_array ob" and "shape ob = s" and "1 \<le> k"
  shows "get_row (NdArray (k # s) (data ob @ rest)) 0 = Inr ob"
  using assms by (cases ob) (simp add: get_row_def wf_array_def)

lemma get_row_shifted:
  assumes "wf_array ob" and "shape ob = s" and "Suc i < k"
  shows "get_row (NdArray (k # s) (data ob @ rest)) (Suc i) =
         Inr (NdArray s (take (prod_list s) (drop (i * prod_list s) rest)))"
  using assms by (simp add: get_row_def wf_array_def)

lemma take_drop_replicate:
  assumes "Suc i < k"
  shows "take p (drop (i * p) (replicate ((k - Suc 0) * p) x)) = replicate p x"
proof -
  from assms obtain d where k: "k = Suc (Suc (i + d))"
    by (metis less_imp_Suc_add add_Suc_right add_Suc)
  have "(k - Suc 0) * p - i * p = p + d * p" unfolding k by (simp add: algebra_simps)
  then show ?thesis by simp
qed

lemma take_drop_take:
  assumes "Suc i < k"
  shows "take p (drop (i * p) (take ((k - Suc 0) * p) xs)) = take p (drop (i * p) xs)"
proof -
  from assms obtain d where k: "k = Suc (Suc (i + d))"
    by (metis less_imp_Suc_add add_Suc_right add_Suc)
  have "(k - Suc 0) * p - i * p = p + d * p" unfolding k by (simp add: algebra_simps)
  then show ?thesis by (simp add: drop_take min_def)
qed

lemma get_row_zero_tail:
  assumes "wf_array ob" and "shape ob = s" and "Suc j < k"
  shows "get_row (NdArray (k # s) (data ob @ replicate ((k - Suc 0) * prod_list s) 0)) (Suc j)
           = Inr (zeros s)"
  unfolding get_row_shifted [OF assms] take_drop_replicate [OF assms(3)] zeros_def ..

text \<open>
  C6. Let the buffer of a \<open>FrameBuffer\<close> have \<open>k \<ge> 1\<close> frames of the shape \<open>s\<close>, and let
  the wrapped environment's \<open>reset\<close> return the observation \<open>ob0\<close> of that shape. Then
  \<open>reset\<close> leaves the buffer with \<open>ob0\<close> in frame 0 and zeros in the frames 1 to
  \<open>k - 1\<close>, and returns what the reshape function makes of that buffer.
\<close>

theorem FrameBuffer_reset_buffer:
  assumes "shape (framebuffer w) = k # s" and "1 \<le> k" and "s \<noteq> []"
    and "sim_reset sim (env w) cells = Inr (ob0, cells1)"
    and "shape ob0 = s" and "wf_array ob0"
  shows "let fb = NdArray (k # s) (data ob0 @ replicate ((k - 1) * prod_list s) 0) in
           FrameBuffer_reset sim w cells =
             and_then (reshape_fn w fb)
               (\<lambda>out. Inr (out, w\<lparr>framebuffer := fb\<rparr>, cells1))
           \<and> get_row fb 0 = Inr ob0
           \<and> (\<forall>i. 0 < i \<and> i < k \<longrightarrow> get_row fb i = Inr (zeros s))"
proof -
  let ?fb = "NdArray (k # s) (data ob0 @ replicate ((k - 1) * prod_list s) 0)"
  let ?w0 = "w\<lparr>framebuffer := zeros_like (framebuffer w)\<rparr>"
  have "update_buffer ?w0 ob0 = Inr (w\<lparr>framebuffer := ?fb\<rparr>)"
    using update_buffer_eq [of ?w0 k s ob0] assms
    by (simp add: zeros_like_def zeros_def)
  then have run: "FrameBuffer_reset sim w cells =
             and_then (reshape_fn w ?fb)
               (\<lambda>out. Inr (out, w\<lparr>framebuffer := ?fb\<rparr>, cells1))"
    using assms(4) by (simp add: FrameBuffer_reset_def Let_def)
  have first: "get_row ?fb 0 = Inr ob0"
    using assms by (simp add: get_row_first)
  have others: "get_row ?fb i = Inr (zeros s)" if "0 < i" "i < k" for i
  proof -
    from that obtain j where i: "i = Suc j" by (cases i) auto
    with that assms show ?thesis
      by (simp add: get_row_zero_tail)
  qed
  from run first others show ?thesis by (simp add: Let_def)
qed

text \<open>
  C6 at a concrete input: two frames of shape \<open>(2,)\<close>, an environment in its fifth step
  whose reset observes \<open>(0, 1)\<close>. The buffer becomes \<open>[(0, 1), (0, 0)]\<close>, and \<open>reset\<close>
  returns it reshaped.
\<close>

theorem FrameBuffer_reset_buffer_witness:
  "shape (framebuffer buffer2) = [2, 2]
   \<and> sim_reset (counter_sim [2] 0) 0 (\<lambda>a. Counter 5 0)
       = Inr (NdArray [2] [0, 1], (\<lambda>a. Counter 5 0)(0 := Counter 0 1))
   \<and> wf_array (NdArray [2] [0, 1 :: real])
   \<and> FrameBuffer_reset (counter_sim [2] 0) buffer2 (\<lambda>a. Counter 5 0)
       = Inr (NdArray [2, 2] [0, 0, 1, 0],
              buffer2\<lparr>framebuffer := NdArray [2, 2] [0, 1, 0, 0]\<rparr>,
              (\<lambda>a. Counter 5 0)(0 := Counter 0 1))
   \<and> get_row (NdArray [2, 2] [0, 1, 0, 0 :: real]) 0 = Inr (NdArray [2] [0, 1])
   \<and> get_row (NdArray [2, 2] [0, 1, 0, 0 :: real]) 1 = Inr (zeros [2])"
  using FrameBuffer_reset_buffer [of buffer2 2 "[2]" "counter_sim [2] 0" "\<lambda>a. Counter 5 0"
      "NdArray [2] [0, 1]" "(\<lambda>a. Counter 5 0)(0 := Counter 0 1)"]
  by (simp add: buffer2_def counter_sim_def counter_at_def fb_defs Let_def numeral_2_eq_2)

text \<open>
  C7. Let the buffer have \<open>k \<ge> 1\<close> frames of the shape \<open>s\<close>, and let the wrapped
  environment's \<open>step\<close> on the action return the observation \<open>new_obs\<close> of that shape with
  reward \<open>r\<close>, flag \<open>done\<close> and \<open>info\<close>. Then \<open>step\<close> passes the action to the wrapped
  environment, leaves the buffer with \<open>new_obs\<close> in frame 0 and the old frame \<open>i\<close> in
  frame \<open>i + 1\<close> (the old last frame is gone), and returns what the reshape function
  makes of that buffer, with \<open>r\<close>, \<open>done\<close> and \<open>info\<close> as they are.
\<close>

theorem FrameBuffer_step_fifo:
  assumes "shape (framebuffer w) = k # s" and "1 \<le> k" and "s \<noteq> []"
    and "sim_step sim (env w) cells action = Inr ((new_obs, r, done, info), cells1)"
    and "shape new_obs = s" and "wf_array new_obs"
  shows "let fb = NdArray (k # s)
                    (data new_obs @ take ((k - 1) * prod_list s) (data (framebuffer w))) in
           FrameBuffer_step sim w action cells =
             and_then (reshape_fn w fb)
               (\<lambda>out. Inr ((out, r, done, info), w\<lparr>framebuffer := fb\<rparr>, cells1))
           \<and> get_row fb 0 = Inr new_obs
           \<and> (\<forall>i. Suc i < k \<longrightarrow> get_row fb (Suc i) = get_row (framebuffer w) i)"
proof -
  let ?fb = "NdArray (k # s) (data new_obs @ take ((k - 1) * prod_list s) (data (framebuffer w)))"
  have "update_buffer w new_obs = Inr (w\<lparr>framebuffer := ?fb\<rparr>)"
    using update_buffer_eq [of w k s new_obs] assms by simp
  then have run: "FrameBuffer_step sim w action cells =
             and_then (reshape_fn w ?fb)
               (\<lambda>out. Inr ((out, r, done, info), w\<lparr>framebuffer := ?fb\<rparr>, cells1))"
    using assms(4) by (simp add: FrameBuffer_step_def)
  have first: "get_row ?fb 0 = Inr new_obs"
    using assms by (simp add: get_row_first)
  have others: "get_row ?fb (Suc i) = get_row (framebuffer w) i" if "Suc i < k" for i
    using that assms by (simp add: get_row_shifted take_drop_take) (simp add: get_row_def)
  from run first others show ?thesis by (simp add: Let_def)
qed

text \<open>
  C7 at a concrete input: the buffer \<open>[(0, 1), (0, 0)]\<close> and a step that observes
  \<open>(1, 1)\<close> with reward 1. The buffer becomes \<open>[(1, 1), (0, 1)]\<close>; reward, flag and info
  are those of the environment.
\<close>

theorem FrameBuffer_step_fifo_witness:
  "shape (framebuffer (buffer2\<lparr>framebuffer := NdArray [2, 2] [0, 1, 0, 0]\<rparr>)) = [2, 2]
   \<and> sim_step (counter_sim [2] 0) 0 (\<lambda>a. Counter 0 1) 0
       = Inr ((NdArray [2] [1, 1], 1, False, ()), (\<lambda>a. Counter 0 1)(0 := Counter 1 1))
   \<and> wf_array (NdArray [2] [1, 1 :: real])
   \<and> FrameBuffer_step (counter_sim [2] 0)
         (buffer2\<lparr>framebuffer := NdArray [2, 2] [0, 1, 0, 0]\<rparr>) 0 (\<lambda>a. Counter 0 1)
       = Inr ((NdArray [2, 2] [1, 0, 1, 1], 1, False, ()),
              buffer2\<lparr>framebuffer := NdArray [2, 2] [1, 1, 0, 1]\<rparr>,
              (\<lambda>a. Counter 0 1)(0 := Counter 1 1))
   \<and> get_row (NdArray [2, 2] [1, 1, 0, 1 :: real]) 0 = Inr (NdArray [2] [1, 1])
   \<and> get_row (NdArray [2, 2] [1, 1, 0, 1 :: real]) 1
       = get_row (NdArray [2, 2] [0, 1, 0, 0 :: real]) 0"
  using FrameBuffer_step_fifo [of "buffer2\<lparr>framebuffer := NdArray [2, 2] [0, 1, 0, 0]\<rparr>"
      2 "[2]" "counter_sim [2] 0" "\<lambda>a. Counter 0 1" 0 "NdArray [2] [1, 1]" 1 False "()"
      "(\<lambda>a. Counter 0 1)(0 := Counter 1 1)"]
  by (simp add: buffer2_def counter_sim_def counter_at_def fb_defs Let_def numeral_2_eq_2)

section \<open>The loops of the pool\<close>

lemma rows_changed_refl: "rows_changed p lo hi h h"
  by (simp add: rows_changed_def)

lemma rows_changed_trans:
  assumes "rows_changed p lo mid h h1" and "rows_changed p mid hi h1 h2"
    and "lo \<le> mid" and "mid \<le> hi"
  shows "rows_changed p lo hi h h2"
proof -
  have rows1: "obs_arrays h1 (p_states p) ! j = obs_arrays h (p_states p) ! j
            \<and> reward_arrays h1 (p_rewards p) ! j = reward_arrays h (p_rewards p) ! j
            \<and> done_arrays h1 (p_dones p) ! j = done_arrays h (p_dones p) ! j"
    if "j < lo \<or> mid \<le> j" for j
    using assms(1) that unfolding rows_changed_def by blast
  have rows2: "obs_arrays h2 (p_states p) ! j = obs_arrays h1 (p_states p) ! j
            \<and> reward_arrays h2 (p_rewards p) ! j = reward_arrays h1 (p_rewards p) ! j
            \<and> done_arrays h2 (p_dones p) ! j = done_arrays h1 (p_dones p) ! j"
    if "j < mid \<or> hi \<le> j" for j
    using assms(2) that unfolding rows_changed_def by blast
  have rows: "obs_arrays h2 (p_states p) ! j = obs_arrays h (p_states p) ! j
            \<and> reward_arrays h2 (p_rewards p) ! j = reward_arrays h (p_rewards p) ! j
            \<and> done_arrays h2 (p_dones p) ! j = done_arrays h (p_dones p) ! j"
    if "j < lo \<or> hi \<le> j" for j
  proof -
    from that assms(3,4) have "j < lo \<or> mid \<le> j" and "j < mid \<or> hi \<le> j" by auto
    with rows1 [of j] rows2 [of j] show ?thesis by simp
  qed
  have others: "arr_next h2 = arr_next h \<and> env_next h2 = env_next h
     \<and> (\<forall>a. a \<noteq> p_states p \<longrightarrow> obs_arrays h2 a = obs_arrays h a)
     \<and> (\<forall>a. a \<noteq> p_rewards p \<longrightarrow> reward_arrays h2 a = reward_arrays h a)
     \<and> (\<forall>a. a \<noteq> p_dones p \<longrightarrow> done_arrays h2 a = done_arrays h a)
     \<and> length (obs_arrays h2 (p_states p)) = length (obs_arrays h (p_states p))
     \<and> length (reward_arrays h2 (p_rewards p)) = length (reward_arrays h (p_rewards p))
     \<and> length (done_arrays h2 (p_dones p)) = length (done_arrays h (p_dones p))"
    using assms(1,2) unfolding rows_changed_def by simp
  from others rows show ?thesis unfolding rows_changed_def by blast
qed

lemma step_slot_eq_Inr:
  "step_slot sim f32 p i action e h = Inr (e2, h1) \<longleftrightarrow>
     (\<exists>new_s r done info e1 cells1 s cells2 row.
        slot_step sim e action (env_cells h) = Inr ((new_s, r, done, info), e1, cells1)
        \<and> i < length (reward_arrays h (p_rewards p))
        \<and> i < length (done_arrays h (p_dones p))
        \<and> (if \<not> done then Inr (new_s, e1, cells1) else slot_reset sim e1 cells1)
              = Inr (s, e2, cells2)
        \<and> i < length (obs_arrays h (p_states p))
        \<and> row_value f32 (env_shape p) s = Inr row
        \<and> h1 = h\<lparr>env_cells := cells2,
                  obs_arrays :=
                    (obs_arrays h)(p_states p := (obs_arrays h (p_states p))[i := row]),
                  reward_arrays :=
                    (reward_arrays h)(p_rewards p := (reward_arrays h (p_rewards p))[i := f32 r]),
                  done_arrays :=
                    (done_arrays h)(p_dones p := (done_arrays h (p_dones p))[i := done])\<rparr>)"
proof (cases "slot_step sim e action (env_cells h)")
  case (Inl err)
  then show ?thesis by (simp add: step_slot_def)
next
  case (Inr x)
  obtain new_s r dn info e1 cells1 where x: "x = ((new_s, r, dn, info), e1, cells1)"
    using prod_cases3 prod_cases4 by metis
  show ?thesis
  proof (cases "if \<not> dn then Inr (new_s, e1, cells1) else slot_reset sim e1 cells1")
    case (Inl err)
    then show ?thesis
      by (simp add: step_slot_def Inr x set_item_def)
  next
    case inner: (Inr y)
    obtain s e3 cells2 where y: "y = (s, e3, cells2)" by (cases y) auto
    show ?thesis
      using inner
      by (auto simp: step_slot_def Inr x y set_item_def set_row_def and_then_eq_Inr)
  qed
qed

lemma step_slot_rows:
  assumes "step_slot sim f32 p i action e h = Inr (e2, h1)"
  shows "rows_changed p i (Suc i) h h1"
  using assms unfolding step_slot_eq_Inr rows_changed_def by auto

lemma step_loop_rows:
  "step_loop sim f32 p i xs h = Inr (es, h1) \<Longrightarrow>
     length es = length xs \<and> rows_changed p i (i + length xs) h h1"
proof (induction xs arbitrary: i h es)
  case Nil
  then show ?case by (simp add: rows_changed_refl)
next
  case (Cons x xs)
  obtain a e where x: "x = (a, e)" by (cases x)
  from Cons.prems obtain e2 hm es1 where
    slot: "step_slot sim f32 p i a e h = Inr (e2, hm)"
    and rest: "step_loop sim f32 p (Suc i) xs hm = Inr (es1, h1)" and es: "es = e2 # es1"
    by (auto simp: x and_then_eq_Inr)
  from Cons.IH [OF rest] have "length es1 = length xs"
    and "rows_changed p (Suc i) (Suc i + length xs) hm h1" by simp_all
  with step_slot_rows [OF slot] es show ?case
    using rows_changed_trans [of p i "Suc i" h hm "Suc i + length xs" h1] by simp
qed

lemma step_loop_append:
  "step_loop sim f32 p i (xs @ ys) h = Inr (es, h2) \<Longrightarrow>
     \<exists>es1 h1 es2. step_loop sim f32 p i xs h = Inr (es1, h1)
        \<and> step_loop sim f32 p (i + length xs) ys h1 = Inr (es2, h2) \<and> es = es1 @ es2"
proof (induction xs arbitrary: i h es)
  case Nil
  then show ?case by simp
next
  case (Cons x xs)
  obtain a e where x: "x = (a, e)" by (cases x)
  from Cons.prems obtain e2 hm es' where
    slot: "step_slot sim f32 p i a e h = Inr (e2, hm)"
    and rest: "step_loop sim f32 p (Suc i) (xs @ ys) hm = Inr (es', h2)" and es: "es = e2 # es'"
    by (auto simp: x and_then_eq_Inr)
  from Cons.IH [OF rest] obtain es1 h1 es2 where
    "step_loop sim f32 p (Suc i) xs hm = Inr (es1, h1)"
    "step_loop sim f32 p (Suc i + length xs) ys h1 = Inr (es2, h2)" "es' = es1 @ es2"
    by blast
  with slot es show ?case by (simp add: x)
qed

lemma EnvPool_step_eq_Inr:
  "EnvPool_step sim f32 p actions h = Inr ((c1, c2, c3), p1, h1) \<longleftrightarrow>
     (\<exists>es hl. step_loop sim f32 p 0 (zip actions (envs p)) h = Inr (es, hl)
        \<and> c1 = arr_next hl \<and> c2 = Suc (arr_next hl) \<and> c3 = Suc (Suc (arr_next hl))
        \<and> p1 = p\<lparr>envs := es @ drop (length es) (envs p)\<rparr>
        \<and> h1 = hl\<lparr>obs_arrays := (obs_arrays hl)(arr_next hl := obs_arrays hl (p_states p)),
                   reward_arrays :=
                     (reward_arrays hl)(Suc (arr_next hl) := reward_arrays hl (p_rewards p)),
                   done_arrays :=
                     (done_arrays hl)(Suc (Suc (arr_next hl)) := done_arrays hl (p_dones p)),
                   arr_next := Suc (Suc (Suc (arr_next hl)))\<rparr>)"
  by (auto simp: EnvPool_step_def and_then_eq_Inr new_obs_array_def new_reward_array_def
      new_done_array_def)

lemma reset_slot_eq_Inr:
  "reset_slot sim f32 p i e h = Inr (e1, h1) \<longleftrightarrow>
     (\<exists>ob cells1 row.
        slot_reset sim e (env_cells h) = Inr (ob, e1, cells1)
        \<and> i < length (obs_arrays h (p_states p))
        \<and> row_value f32 (env_shape p) ob = Inr row
        \<and> h1 = h\<lparr>env_cells := cells1,
                  obs_arrays :=
                    (obs_arrays h)(p_states p := (obs_arrays h (p_states p))[i := row])\<rparr>)"
proof (cases "slot_reset sim e (env_cells h)")
  case (Inl err)
  then show ?thesis by (simp add: reset_slot_def)
next
  case (Inr x)
  obtain ob e3 cells1 where x: "x = (ob, e3, cells1)" by (cases x) auto
  show ?thesis by (auto simp: reset_slot_def Inr x set_row_def and_then_eq_Inr)
qed

lemma reset_slot_rows:
  assumes "reset_slot sim f32 p i e h = Inr (e1, h1)"
  shows "rows_changed p i (Suc i) h h1"
  using assms unfolding reset_slot_eq_Inr rows_changed_def by auto

lemma reset_loop_rows:
  "reset_loop sim f32 p i es h = Inr (es1, h1) \<Longrightarrow>
     length es1 = length es \<and> rows_changed p i (i + length es) h h1"
proof (induction es arbitrary: i h es1)
  case Nil
  then show ?case by (simp add: rows_changed_refl)
next
  case (Cons e es)
  from Cons.prems obtain e1 hm es' where
    slot: "reset_slot sim f32 p i e h = Inr (e1, hm)"
    and rest: "reset_loop sim f32 p (Suc i) es hm = Inr (es', h1)" and es1: "es1 = e1 # es'"
    by (auto simp: and_then_eq_Inr)
  from Cons.IH [OF rest] have "length es' = length es"
    and "rows_changed p (Suc i) (Suc i + length es) hm h1" by simp_all
  with reset_slot_rows [OF slot] es1 show ?case
    using rows_changed_trans [of p i "Suc i" h hm "Suc i + length es" h1] by simp
qed

lemmas pool_defs = EnvPool_init_def recreate_envs_def EnvPool_close_def EnvPool_reset_def
  EnvPool_step_def pool_states_def pool_call_def new_obs_array_def new_reward_array_def
  new_done_array_def reset_slot_def step_slot_def slot_reset_def slot_step_def set_item_def
  set_row_def row_value_def broadcast_to_def astype_def copy_env_def slot_shape_def
  slot_addr_def zeros_def heap_view_def

lemmas example_defs = counter_sim_def counter_at_def f32_example_def start_heap_def
  inner_heap_def pool3_def heap3_def heap3b_def buffer2_def

section \<open>Auto-reset in step\<close>

lemma slot_step_kind:
  assumes "slot_step sim e action cells = Inr (res, e1, cells1)"
  shows "case e of
           Plain a \<Rightarrow> sim_step sim a cells action = Inr (res, cells1) \<and> e1 = Plain a
         | Framed w \<Rightarrow>
             \<exists>w1. FrameBuffer_step sim w action cells = Inr (res, w1, cells1) \<and> e1 = Framed w1"
  using assms by (cases e) (auto simp: slot_step_def and_then_eq_Inr)

lemma slot_reset_kind:
  assumes "slot_reset sim e cells = Inr (ob, e1, cells1)"
  shows "case e of
           Plain a \<Rightarrow> sim_reset sim a cells = Inr (ob, cells1) \<and> e1 = Plain a
         | Framed w \<Rightarrow>
             \<exists>w1. FrameBuffer_reset sim w cells = Inr (ob, w1, cells1) \<and> e1 = Framed w1"
  using assms by (cases e) (auto simp: slot_reset_def and_then_eq_Inr)

lemma step_loop_snoc:
  "step_loop sim f32 p i xs h = Inr (es0, hi) \<Longrightarrow>
   step_slot sim f32 p (i + length xs) a e hi = Inr (e2, hm) \<Longrightarrow>
     step_loop sim f32 p i (xs @ [(a, e)]) h = Inr (es0 @ [e2], hm)"
proof (induction xs arbitrary: i h es0)
  case Nil
  then show ?case by simp
next
  case (Cons x xs)
  obtain b d where x: "x = (b, d)" by (cases x)
  from Cons.prems(1) obtain d2 h' es' where
    slot: "step_slot sim f32 p i b d h = Inr (d2, h')"
    and rest: "step_loop sim f32 p (Suc i) xs h' = Inr (es', hi)" and es0: "es0 = d2 # es'"
    by (auto simp: x and_then_eq_Inr)
  from Cons.prems(2) have "step_slot sim f32 p (Suc i + length xs) a e hi = Inr (e2, hm)"
    by simp
  from Cons.IH [OF rest this] slot es0 show ?case by (simp add: x)
qed

text \<open>
  C1. Let a call of the pool's \<open>step\<close> return, and let \<open>i\<close> be a slot that has an
  action. When the loop reaches slot \<open>i\<close> (the slots before it are done, the store is
  \<open>hi\<close>), the slot's environment is stepped with action \<open>i\<close>: a bare environment by
  its own \<open>step\<close>, a wrapped one by the \<open>step\<close> of its \<open>FrameBuffer\<close>. It returns an
  observation \<open>new_s\<close>, a reward \<open>r\<close> and a flag \<open>done\<close>. If \<open>done\<close> holds, the slot's
  \<open>reset\<close> is called on the environment and in the store that the step left
  (\<open>cells1\<close>), and \<open>s\<close> is the observation of the reset, not \<open>new_s\<close>; otherwise \<open>s\<close>
  is \<open>new_s\<close>. The loop goes on to slot \<open>i + 1\<close> with the environment and the store
  that the reset returned (\<open>e2\<close>, \<open>cells2\<close>), or those of the step if there was no
  reset. The state of slot \<open>i\<close>, in the pool's array and in the returned copy, is \<open>s\<close>
  as the assignment into the float32 array stores it (\<open>row\<close>): if \<open>s\<close> has the pool's
  row shape, it is \<open>s\<close> cast to float32, and if moreover the entries of \<open>s\<close> are float32
  numbers, it is \<open>s\<close> itself. The returned reward for slot \<open>i\<close> is \<open>r\<close> cast to
  float32 and the returned flag is \<open>done\<close>: those of the step, not of the reset.
\<close>

theorem EnvPool_step_auto_reset:
  assumes "EnvPool_step sim f32 p actions h = Inr ((c1, c2, c3), p1, h1)"
    and "i < length actions" and "i < length (envs p)"
  shows "\<exists>es0 hi new_s r dn info e1 cells1 s e2 cells2 row hm.
           step_loop sim f32 p 0 (take i (zip actions (envs p))) h = Inr (es0, hi)
           \<and> slot_step sim (envs p ! i) (actions ! i) (env_cells hi)
                = Inr ((new_s, r, dn, info), e1, cells1)
           \<and> (case envs p ! i of
                Plain a \<Rightarrow>
                  sim_step sim a (env_cells hi) (actions ! i)
                    = Inr ((new_s, r, dn, info), cells1)
                  \<and> e1 = Plain a
              | Framed w \<Rightarrow>
                  \<exists>w1. FrameBuffer_step sim w (actions ! i) (env_cells hi)
                          = Inr ((new_s, r, dn, info), w1, cells1)
                       \<and> e1 = Framed w1)
           \<and> (if dn
                then slot_reset sim e1 cells1 = Inr (s, e2, cells2)
                     \<and> (case e1 of
                          Plain a \<Rightarrow> sim_reset sim a cells1 = Inr (s, cells2) \<and> e2 = Plain a
                        | Framed w \<Rightarrow>
                            \<exists>w2. FrameBuffer_reset sim w cells1 = Inr (s, w2, cells2)
                                 \<and> e2 = Framed w2)
                else s = new_s \<and> e2 = e1 \<and> cells2 = cells1)
           \<and> step_loop sim f32 p 0 (take (Suc i) (zip actions (envs p))) h
                = Inr (es0 @ [e2], hm)
           \<and> env_cells hm = cells2
           \<and> envs p1 ! i = e2
           \<and> row_value f32 (env_shape p) s = Inr row
           \<and> (shape s = env_shape p \<longrightarrow> row = astype f32 s)
           \<and> (shape s = env_shape p \<and> (\<forall>x \<in> set (data s). f32 x = x) \<longrightarrow> row = s)
           \<and> obs_arrays hm (p_states p) ! i = row
           \<and> obs_arrays h1 (p_states p1) ! i = row
           \<and> obs_arrays h1 c1 ! i = row
           \<and> reward_arrays h1 c2 ! i = f32 r
           \<and> done_arrays h1 c3 ! i = dn"
proof -
  let ?zs = "zip actions (envs p)"
  from assms(1) obtain es hl where
    loop: "step_loop sim f32 p 0 ?zs h = Inr (es, hl)"
    and p1: "p1 = p\<lparr>envs := es @ drop (length es) (envs p)\<rparr>"
    and c1: "obs_arrays h1 c1 = obs_arrays hl (p_states p)"
    and c2: "reward_arrays h1 c2 = reward_arrays hl (p_rewards p)"
    and c3: "done_arrays h1 c3 = done_arrays hl (p_dones p)"
    and h1: "h1 = hl\<lparr>obs_arrays := (obs_arrays hl)(arr_next hl := obs_arrays hl (p_states p)),
                   reward_arrays :=
                     (reward_arrays hl)(Suc (arr_next hl) := reward_arrays hl (p_rewards p)),
                   done_arrays :=
                     (done_arrays hl)(Suc (Suc (arr_next hl)) := done_arrays hl (p_dones p)),
                   arr_next := Suc (Suc (Suc (arr_next hl)))\<rparr>"
    unfolding EnvPool_step_eq_Inr by auto
  from h1 p1 have own: "obs_arrays h1 (p_states p1) = obs_arrays hl (p_states p)" by simp
  from assms(2,3) have len: "i < length ?zs" by simp
  then have nth: "?zs ! i = (actions ! i, envs p ! i)" by simp
  from len have split: "?zs = take i ?zs @ (actions ! i, envs p ! i) # drop (Suc i) ?zs"
    using id_take_nth_drop [of i ?zs] by simp
  from loop obtain es0 hi es2 where
    before: "step_loop sim f32 p 0 (take i ?zs) h = Inr (es0, hi)"
    and from_i: "step_loop sim f32 p (0 + length (take i ?zs))
                   ((actions ! i, envs p ! i) # drop (Suc i) ?zs) hi = Inr (es2, hl)"
    and es: "es = es0 @ es2"
    using step_loop_append [of sim f32 p 0 "take i ?zs" _ h es hl] split by metis
  from len have leni: "length (take i ?zs) = i" by simp
  from from_i obtain e2 hm es3 where
    slot: "step_slot sim f32 p i (actions ! i) (envs p ! i) hi = Inr (e2, hm)"
    and after: "step_loop sim f32 p (Suc i) (drop (Suc i) ?zs) hm = Inr (es3, hl)"
    and es2: "es2 = e2 # es3"
    unfolding leni by (auto simp: and_then_eq_Inr)
  from slot leni have "step_slot sim f32 p (0 + length (take i ?zs)) (actions ! i) (envs p ! i) hi
                        = Inr (e2, hm)" by simp
  from step_loop_snoc [OF before this] len nth
  have upto: "step_loop sim f32 p 0 (take (Suc i) ?zs) h = Inr (es0 @ [e2], hm)"
    by (simp add: take_Suc_conv_app_nth)
  from step_loop_rows [OF before] leni have len0: "length es0 = i" by simp
  from step_loop_rows [OF after]
  have keep: "obs_arrays hl (p_states p) ! i = obs_arrays hm (p_states p) ! i"
    "reward_arrays hl (p_rewards p) ! i = reward_arrays hm (p_rewards p) ! i"
    "done_arrays hl (p_dones p) ! i = done_arrays hm (p_dones p) ! i"
    unfolding rows_changed_def by simp_all
  from es es2 len0 p1 have slot_i: "envs p1 ! i = e2"
    by (simp add: nth_append)
  from slot obtain new_s r dn info e1 cells1 s cells2 row where
    stepped: "slot_step sim (envs p ! i) (actions ! i) (env_cells hi)
                = Inr ((new_s, r, dn, info), e1, cells1)"
    and inner: "(if \<not> dn then Inr (new_s, e1, cells1) else slot_reset sim e1 cells1)
                  = Inr (s, e2, cells2)"
    and row: "row_value f32 (env_shape p) s = Inr row"
    and cells: "env_cells hm = cells2"
    and stored: "obs_arrays hm (p_states p) ! i = row"
      "reward_arrays hm (p_rewards p) ! i = f32 r" "done_arrays hm (p_dones p) ! i = dn"
    unfolding step_slot_eq_Inr by auto
  have branch: "if dn
        then slot_reset sim e1 cells1 = Inr (s, e2, cells2)
             \<and> (case e1 of
                  Plain a \<Rightarrow> sim_reset sim a cells1 = Inr (s, cells2) \<and> e2 = Plain a
                | Framed w \<Rightarrow>
                    \<exists>w2. FrameBuffer_reset sim w cells1 = Inr (s, w2, cells2) \<and> e2 = Framed w2)
        else s = new_s \<and> e2 = e1 \<and> cells2 = cells1"
  proof (cases dn)
    case True
    with inner have "slot_reset sim e1 cells1 = Inr (s, e2, cells2)" by simp
    with slot_reset_kind [OF this] True show ?thesis by simp
  next
    case False
    with inner show ?thesis by simp
  qed
  have cast: "row = astype f32 s" if "shape s = env_shape p"
    using row row_value_same_shape [OF that, of f32] by simp
  have exact: "row = s" if "shape s = env_shape p" "\<forall>x \<in> set (data s). f32 x = x"
    using cast [OF that(1)] astype_exact [OF that(2)] by simp
  from stored keep c1 c2 c3 own
  have out: "obs_arrays h1 (p_states p1) ! i = row" "obs_arrays h1 c1 ! i = row"
    "reward_arrays h1 c2 ! i = f32 r" "done_arrays h1 c3 ! i = dn"
    by simp_all
  show ?thesis
    using before stepped slot_step_kind [OF stepped] branch upto cells slot_i row cast exact
      stored(1) out
    by (intro exI [of _ es0] exI [of _ hi] exI [of _ new_s] exI [of _ r] exI [of _ dn]
        exI [of _ info] exI [of _ e1] exI [of _ cells1] exI [of _ s] exI [of _ e2]
        exI [of _ cells2] exI [of _ row] exI [of _ hm]) simp
qed

text \<open>
  C1 at a concrete input: the pool of three counting environments, one step behind it,
  with counts that start at 16777215. On the second step slot 1 gets the action that ends
  its episode: its environment returns the observation \<open>(16777217, 1)\<close>, the reward
  16777217 and \<open>done\<close>, and is reset. The call returns the flags
  \<open>[False, True, False]\<close>, three times the reward 16777216 (the cast of 16777217),
  and for slot 1 the observation \<open>(16777215, 2)\<close> of a fresh episode; the environment of
  slot 1 is at step 0 of its second episode.
\<close>

theorem EnvPool_step_auto_reset_witness:
  "map_sum id (\<lambda>(cs, p1, h1). (p1, heap_view h1))
     (EnvPool_step (counter_sim [2] 0) f32_example pool3 [0, 0, 0] heap3)
     = Inr (pool3, heap_view heap3b)
   \<and> (1 :: nat) < length [0, 1, 0 :: nat] \<and> 1 < length (envs pool3)
   \<and> sim_step (counter_sim [2] 16777215) 2 (env_cells heap3b) 1
       = Inr ((NdArray [2] [16777217, 1], 16777217, True, ()),
              (env_cells heap3b)(2 := Counter 2 1))
   \<and> sim_reset (counter_sim [2] 16777215) 2 ((env_cells heap3b)(2 := Counter 2 1))
       = Inr (NdArray [2] [16777215, 2], (env_cells heap3b)(2 := Counter 0 2))
   \<and> map_sum id
        (\<lambda>((c1, c2, c3), p1, h1).
           (obs_arrays h1 c1, reward_arrays h1 c2, done_arrays h1 c3,
            obs_arrays h1 (p_states p1), map (env_cells h1) [0, 1, 2, 3]))
        (EnvPool_step (counter_sim [2] 16777215) f32_example pool3 [0, 1, 0] heap3b)
       = Inr ([NdArray [2] [16777216, 1], NdArray [2] [16777215, 2], NdArray [2] [16777216, 1]],
              [16777216, 16777216, 16777216], [False, True, False],
              [NdArray [2] [16777216, 1], NdArray [2] [16777215, 2], NdArray [2] [16777216, 1]],
              [Counter 0 0, Counter 2 1, Counter 0 2, Counter 2 1])"
proof -
  let ?r = "projr (EnvPool_step (counter_sim [2] 16777215) f32_example pool3 [0, 1, 0] heap3b)"
  have run: "EnvPool_step (counter_sim [2] 16777215) f32_example pool3 [0, 1, 0] heap3b
             = Inr ((7, 8, 9), fst (snd ?r), snd (snd ?r))"
    by (simp add: pool_defs example_defs Let_def)
  from EnvPool_step_auto_reset [OF run, of 1] show ?thesis
    by (simp add: pool_defs example_defs Let_def eval_nat_numeral)
qed

section \<open>Action batches of another length\<close>

lemma zip_take_slots: "zip (take (length ys) xs) ys = zip xs ys"
proof -
  have "zip xs ys = take (length ys) (zip xs ys)" by simp
  also have "\<dots> = zip (take (length ys) xs) ys" by (simp add: take_zip)
  finally show ?thesis by simp
qed

lemma zip_take_actions: "zip xs (take (length xs) ys) = zip xs ys"
proof -
  have "zip xs ys = take (length xs) (zip xs ys)" by simp
  also have "\<dots> = zip xs (take (length xs) ys)" by (simp add: take_zip)
  finally show ?thesis by simp
qed

lemma step_slot_envs: "step_slot sim f32 (p\<lparr>envs := es\<rparr>) i a e h = step_slot sim f32 p i a e h"
  by (simp add: step_slot_def)

lemma step_loop_envs: "step_loop sim f32 (p\<lparr>envs := es\<rparr>) i xs h = step_loop sim f32 p i xs h"
proof (induction xs arbitrary: i h)
  case Nil
  show ?case by simp
next
  case (Cons x xs)
  obtain a e where x: "x = (a, e)" by (cases x)
  show ?case unfolding x step_loop.simps step_slot_envs Cons.IH ..
qed

text \<open>
  C2, as the code has it. \<open>step\<close> does not compare the number of actions with the number
  of slots: it pairs actions and slots in index order up to the shorter of the two.
  Actions beyond the last slot are ignored: the call is the call with the first \<open>N\<close>
  actions. Slots beyond the last action are not stepped: the call is the call on the
  pool of the first \<open>M\<close> slots alone, with the other slots put back as they were; and
  when the call returns, the entries of these slots in the pool's three arrays and in the
  three returned arrays are what they were before the call. (An environment that such a
  slot shares with one of the first \<open>M\<close> slots is stepped through that slot.)
\<close>

theorem EnvPool_step_any_length:
  "EnvPool_step sim f32 p actions h = EnvPool_step sim f32 p (take (length (envs p)) actions) h
   \<and> EnvPool_step sim f32 p actions h =
       map_sum id
         (\<lambda>(cs, p1, h1). (cs, p1\<lparr>envs := envs p1 @ drop (length actions) (envs p)\<rparr>, h1))
         (EnvPool_step sim f32 (p\<lparr>envs := take (length actions) (envs p)\<rparr>) actions h)
   \<and> (\<forall>c1 c2 c3 p1 h1 j.
         EnvPool_step sim f32 p actions h = Inr ((c1, c2, c3), p1, h1)
         \<and> length actions \<le> j \<and> j < length (envs p)
         \<longrightarrow> envs p1 ! j = envs p ! j
             \<and> obs_arrays h1 (p_states p1) ! j = obs_arrays h (p_states p) ! j
             \<and> reward_arrays h1 (p_rewards p1) ! j = reward_arrays h (p_rewards p) ! j
             \<and> done_arrays h1 (p_dones p1) ! j = done_arrays h (p_dones p) ! j
             \<and> obs_arrays h1 c1 ! j = obs_arrays h (p_states p) ! j
             \<and> reward_arrays h1 c2 ! j = reward_arrays h (p_rewards p) ! j
             \<and> done_arrays h1 c3 ! j = done_arrays h (p_dones p) ! j)"
proof -
  let ?zs = "zip actions (envs p)"
  let ?q = "p\<lparr>envs := take (length actions) (envs p)\<rparr>"
  have first: "EnvPool_step sim f32 p actions h
                 = EnvPool_step sim f32 p (take (length (envs p)) actions) h"
    by (simp add: EnvPool_step_def zip_take_slots)
  have second: "EnvPool_step sim f32 p actions h =
       map_sum id
         (\<lambda>(cs, p1, h1). (cs, p1\<lparr>envs := envs p1 @ drop (length actions) (envs p)\<rparr>, h1))
         (EnvPool_step sim f32 ?q actions h)"
  proof (cases "step_loop sim f32 p 0 ?zs h")
    case (Inl err)
    then show ?thesis
      by (simp add: EnvPool_step_def step_loop_envs zip_take_actions)
  next
    case (Inr x)
    obtain es hl where x: "x = (es, hl)" by (cases x)
    from step_loop_rows [of sim f32 p 0 ?zs h es hl] Inr x
    have len: "length es = min (length actions) (length (envs p))" by simp
    have tail: "drop (length es) (envs p) = drop (length actions) (envs p)"
      unfolding len by (cases "length actions \<le> length (envs p)") (simp_all add: min_def)
    have none: "drop (length es) (take (length actions) (envs p)) = []"
      unfolding len by (simp add: min_def)
    show ?thesis
      unfolding EnvPool_step_def step_loop_envs
      by (simp add: zip_take_actions Inr x Let_def new_obs_array_def new_reward_array_def
          new_done_array_def tail none)
  qed
  have third: "envs p1 ! j = envs p ! j
             \<and> obs_arrays h1 (p_states p1) ! j = obs_arrays h (p_states p) ! j
             \<and> reward_arrays h1 (p_rewards p1) ! j = reward_arrays h (p_rewards p) ! j
             \<and> done_arrays h1 (p_dones p1) ! j = done_arrays h (p_dones p) ! j
             \<and> obs_arrays h1 c1 ! j = obs_arrays h (p_states p) ! j
             \<and> reward_arrays h1 c2 ! j = reward_arrays h (p_rewards p) ! j
             \<and> done_arrays h1 c3 ! j = done_arrays h (p_dones p) ! j"
    if run: "EnvPool_step sim f32 p actions h = Inr ((c1, c2, c3), p1, h1)"
      and j: "length actions \<le> j" "j < length (envs p)" for c1 c2 c3 p1 h1 j
  proof -
    from run obtain es hl where
      loop: "step_loop sim f32 p 0 ?zs h = Inr (es, hl)"
      and p1: "p1 = p\<lparr>envs := es @ drop (length es) (envs p)\<rparr>"
      and h1: "h1 = hl\<lparr>obs_arrays := (obs_arrays hl)(arr_next hl := obs_arrays hl (p_states p)),
                   reward_arrays :=
                     (reward_arrays hl)(Suc (arr_next hl) := reward_arrays hl (p_rewards p)),
                   done_arrays :=
                     (done_arrays hl)(Suc (Suc (arr_next hl)) := done_arrays hl (p_dones p)),
                   arr_next := Suc (Suc (Suc (arr_next hl)))\<rparr>"
      and c: "c1 = arr_next hl" "c2 = Suc (arr_next hl)" "c3 = Suc (Suc (arr_next hl))"
      unfolding EnvPool_step_eq_Inr by auto
    from h1 p1 c have arrays:
      "obs_arrays h1 (p_states p1) = obs_arrays hl (p_states p)"
      "reward_arrays h1 (p_rewards p1) = reward_arrays hl (p_rewards p)"
      "done_arrays h1 (p_dones p1) = done_arrays hl (p_dones p)"
      "obs_arrays h1 c1 = obs_arrays hl (p_states p)"
      "reward_arrays h1 c2 = reward_arrays hl (p_rewards p)"
      "done_arrays h1 c3 = done_arrays hl (p_dones p)"
      by simp_all
    from step_loop_rows [OF loop] have len: "length es = length ?zs"
      and rows: "rows_changed p 0 (length ?zs) h hl" by simp_all
    from j have hi: "length ?zs \<le> j" by simp
    with rows have "obs_arrays hl (p_states p) ! j = obs_arrays h (p_states p) ! j
            \<and> reward_arrays hl (p_rewards p) ! j = reward_arrays h (p_rewards p) ! j
            \<and> done_arrays hl (p_dones p) ! j = done_arrays h (p_dones p) ! j"
      unfolding rows_changed_def by blast
    moreover from hi len j p1 have "envs p1 ! j = envs p ! j"
      by (simp add: nth_append)
    ultimately show ?thesis unfolding arrays by simp
  qed
  from first second third show ?thesis by blast
qed

text \<open>
  C2 as amended, at a concrete input: the pool of three environments and a batch of one
  action. The call returns what the call on the pool of slot 0 alone returns, with the
  slots 1 and 2 put back; slot 2 keeps its observation \<open>(0, 1)\<close>, its reward 0 and its
  flag, and here, where no environment is shared, the environments of the slots 1 and 2
  are as they were. With five actions the call is the call with the first three.
\<close>

theorem EnvPool_step_any_length_witness:
  "length [1 :: nat] \<le> 2 \<and> 2 < length (envs pool3)
   \<and> map_sum id
        (\<lambda>((c1, c2, c3), p1, h1).
           (envs p1 ! 2, obs_arrays h1 c1 ! 2, reward_arrays h1 c2 ! 2, done_arrays h1 c3 ! 2,
            obs_arrays h1 (p_states p1) ! 2, map (env_cells h1) [0, 1, 2, 3]))
        (EnvPool_step (counter_sim [2] 0) f32_example pool3 [1] heap3)
       = Inr (envs pool3 ! 2, obs_arrays heap3 (p_states pool3) ! 2,
              reward_arrays heap3 (p_rewards pool3) ! 2, done_arrays heap3 (p_dones pool3) ! 2,
              NdArray [2] [0, 1], [Counter 0 0, Counter 0 2, Counter 0 1, Counter 0 1])
   \<and> map_sum id (\<lambda>(cs, p1, h1). (cs, envs p1))
        (EnvPool_step (counter_sim [2] 0) f32_example (pool3\<lparr>envs := [Plain 1]\<rparr>) [1] heap3)
       = Inr ((4, 5, 6), [Plain 1])
   \<and> map_sum id (\<lambda>(cs, p1, h1). (cs, envs p1))
        (EnvPool_step (counter_sim [2] 0) f32_example pool3 [1] heap3)
       = Inr ((4, 5, 6), [Plain 1, Plain 2, Plain 3])
   \<and> EnvPool_step (counter_sim [2] 0) f32_example pool3 [0, 1, 0, 1, 1] heap3
       = EnvPool_step (counter_sim [2] 0) f32_example pool3 [0, 1, 0] heap3"
  using EnvPool_step_any_length [of "counter_sim [2] 0" f32_example pool3 "[1]" heap3]
    EnvPool_step_any_length [of "counter_sim [2] 0" f32_example pool3 "[0, 1, 0, 1, 1]" heap3]
  by (simp add: pool_defs example_defs Let_def eval_nat_numeral)

text \<open>
  C2, as the claim states it, fails: with three slots and a batch of one action the call
  does not fail. It returns, and slot 0 has been stepped: its reward is 1 and its
  environment has done one step.
\<close>

theorem EnvPool_step_mismatch_counterexample:
  "length [0 :: nat] \<noteq> n_envs pool3
   \<and> map_sum id
        (\<lambda>((c1, c2, c3), p1, h1). (reward_arrays h1 c2, map (env_cells h1) [1, 2, 3]))
        (EnvPool_step (counter_sim [2] 0) f32_example pool3 [0] heap3)
       = Inr ([1, 0, 0], [Counter 1 1, Counter 0 1, Counter 0 1])"
  by (simp add: pool_defs example_defs Let_def)

section \<open>reset and the constructor\<close>

lemma slot_reset_addr:
  "slot_reset sim e cells = Inr (ob, e1, cells1) \<Longrightarrow> slot_addr e1 = slot_addr e"
  using FrameBuffer_reset_fields
  by (cases e) (fastforce simp: slot_reset_def slot_addr_def and_then_eq_Inr)+

lemma reset_all_lengths:
  "reset_all sim es cells = Inr (obs, es1, cells1) \<Longrightarrow>
     length obs = length es \<and> length es1 = length es \<and> map slot_addr es1 = map slot_addr es"
proof (induction es arbitrary: cells obs es1)
  case Nil
  then show ?case by simp
next
  case (Cons e es)
  from Cons.prems obtain ob e1 cellsm obs' es' where
    "slot_reset sim e cells = Inr (ob, e1, cellsm)"
    "reset_all sim es cellsm = Inr (obs', es', cells1)" "obs = ob # obs'" "es1 = e1 # es'"
    by (auto simp: and_then_eq_Inr)
  with Cons.IH [of cellsm obs' es'] slot_reset_addr show ?case by fastforce
qed

lemma heap_rows_merge:
  fixes h :: "'s heap"
  assumes "i < length (obs_arrays h q)"
  shows "(h\<lparr>env_cells := cellsm, obs_arrays := (obs_arrays h)(q := (obs_arrays h q)[i := ob])\<rparr>)
           \<lparr>env_cells := cells,
             obs_arrays :=
               (obs_arrays (h\<lparr>env_cells := cellsm,
                              obs_arrays := (obs_arrays h)(q := (obs_arrays h q)[i := ob])\<rparr>))
                 (q := take (Suc i)
                         (obs_arrays (h\<lparr>env_cells := cellsm,
                            obs_arrays := (obs_arrays h)(q := (obs_arrays h q)[i := ob])\<rparr>) q)
                       @ obs'
                       @ drop (Suc i + n)
                           (obs_arrays (h\<lparr>env_cells := cellsm,
                              obs_arrays := (obs_arrays h)(q := (obs_arrays h q)[i := ob])\<rparr>) q))\<rparr>
       = h\<lparr>env_cells := cells,
            obs_arrays := (obs_arrays h)
              (q := take i (obs_arrays h q) @ (ob # obs') @ drop (i + Suc n) (obs_arrays h q))\<rparr>"
  using assms by (simp add: take_Suc_conv_app_nth)

lemma reset_loop_eq:
  assumes "reset_all sim es (env_cells h) = Inr (obs, es1, cells)"
    and "i + length es \<le> length (obs_arrays h (p_states p))"
    and "\<forall>ob \<in> set obs. shape ob = env_shape p"
  shows "reset_loop sim f32 p i es h =
     Inr (es1, h\<lparr>env_cells := cells,
                 obs_arrays := (obs_arrays h)
                   (p_states p := take i (obs_arrays h (p_states p)) @ map (astype f32) obs
                                    @ drop (i + length es) (obs_arrays h (p_states p)))\<rparr>)"
  using assms
proof (induction es arbitrary: i h obs es1)
  case Nil
  then show ?case by simp
next
  case (Cons e es)
  let ?rows = "obs_arrays h (p_states p)"
  from Cons.prems(1) obtain ob e1 cellsm obs' es' where
    first: "slot_reset sim e (env_cells h) = Inr (ob, e1, cellsm)"
    and rest: "reset_all sim es cellsm = Inr (obs', es', cells)"
    and obs: "obs = ob # obs'" and es1: "es1 = e1 # es'"
    by (auto simp: and_then_eq_Inr)
  let ?h1 = "h\<lparr>env_cells := cellsm,
               obs_arrays := (obs_arrays h)(p_states p := ?rows[i := astype f32 ob])\<rparr>"
  from Cons.prems(2) have i: "i < length ?rows" by simp
  from Cons.prems(3) obs have "shape ob = env_shape p" by simp
  from row_value_same_shape [OF this] i first
  have slot: "reset_slot sim f32 p i e h = Inr (e1, ?h1)"
    by (simp add: reset_slot_def set_row_def)
  from rest Cons.prems(2,3) obs
  have "reset_loop sim f32 p (Suc i) es ?h1 =
     Inr (es', ?h1\<lparr>env_cells := cells,
                 obs_arrays := (obs_arrays ?h1)
                   (p_states p := take (Suc i) (obs_arrays ?h1 (p_states p))
                                    @ map (astype f32) obs'
                                    @ drop (Suc i + length es) (obs_arrays ?h1 (p_states p)))\<rparr>)"
    by (intro Cons.IH) simp_all
  then have final: "reset_loop sim f32 p (Suc i) es ?h1 =
     Inr (es', h\<lparr>env_cells := cells,
            obs_arrays := (obs_arrays h)
              (p_states p := take i ?rows @ (astype f32 ob # map (astype f32) obs')
                               @ drop (i + Suc (length es)) ?rows)\<rparr>)"
    unfolding heap_rows_merge [OF i] .
  show ?case unfolding obs es1 reset_loop.simps slot and_then_Inr prod.case final
    by (simp add: fun_upd_def)
qed

lemma EnvPool_reset_eq:
  assumes "reset_all sim (envs p) (env_cells h) = Inr (obs, es, cells)"
    and "length (envs p) = n_envs p"
    and "\<forall>ob \<in> set obs. shape ob = env_shape p"
  shows "EnvPool_reset sim f32 p h =
           Inr (arr_next h + 3,
                p\<lparr>envs := es, p_states := arr_next h, p_rewards := arr_next h + 1,
                  p_dones := arr_next h + 2\<rparr>,
                h\<lparr>env_cells := cells,
                  obs_arrays := (obs_arrays h)(arr_next h := map (astype f32) obs,
                                               arr_next h + 3 := map (astype f32) obs),
                  reward_arrays := (reward_arrays h)(arr_next h + 1 := replicate (n_envs p) 0),
                  done_arrays := (done_arrays h)(arr_next h + 2 := replicate (n_envs p) False),
                  arr_next := arr_next h + 4\<rparr>)
         \<and> length obs = n_envs p
         \<and> map slot_addr es = map slot_addr (envs p)"
proof -
  let ?n = "n_envs p"
  let ?rows = "map (astype f32) obs"
  let ?p1 = "p\<lparr>p_states := arr_next h, p_rewards := Suc (arr_next h),
               p_dones := Suc (Suc (arr_next h))\<rparr>"
  let ?h3 = "h\<lparr>obs_arrays := (obs_arrays h)(arr_next h := replicate ?n (zeros (env_shape p))),
               reward_arrays := (reward_arrays h)(Suc (arr_next h) := replicate ?n 0),
               done_arrays := (done_arrays h)(Suc (Suc (arr_next h)) := replicate ?n False),
               arr_next := Suc (Suc (Suc (arr_next h)))\<rparr>"
  from reset_all_lengths [OF assms(1)] assms(2)
  have len: "length obs = ?n" "length es = ?n" "map slot_addr es = map slot_addr (envs p)"
    by simp_all
  have "reset_loop sim f32 ?p1 0 (envs p) ?h3 =
     Inr (es, ?h3\<lparr>env_cells := cells,
                 obs_arrays := (obs_arrays ?h3)
                   (p_states ?p1 := take 0 (obs_arrays ?h3 (p_states ?p1)) @ ?rows
                        @ drop (0 + length (envs p)) (obs_arrays ?h3 (p_states ?p1)))\<rparr>)"
    using assms by (intro reset_loop_eq) simp_all
  then have loop: "reset_loop sim f32 ?p1 0 (envs p) ?h3 =
     Inr (es, ?h3\<lparr>env_cells := cells, obs_arrays := (obs_arrays ?h3)(arr_next h := ?rows)\<rparr>)"
    using assms(2) by simp
  have "EnvPool_reset sim f32 p h =
           Inr (arr_next h + 3,
                p\<lparr>envs := es, p_states := arr_next h, p_rewards := arr_next h + 1,
                  p_dones := arr_next h + 2\<rparr>,
                h\<lparr>env_cells := cells,
                  obs_arrays := (obs_arrays h)(arr_next h := ?rows, arr_next h + 3 := ?rows),
                  reward_arrays := (reward_arrays h)(arr_next h + 1 := replicate (n_envs p) 0),
                  done_arrays := (done_arrays h)(arr_next h + 2 := replicate (n_envs p) False),
                  arr_next := arr_next h + 4\<rparr>)"
    unfolding EnvPool_reset_def new_obs_array_def new_reward_array_def new_done_array_def
    using loop by (simp add: Let_def numeral_3_eq_3 numeral_Bit0 fun_upd_twist)
  with len show ?thesis by simp
qed

text \<open>
  C5, as the code has it. \<open>reset\<close> creates no environment and replaces none: it works
  on the slot environments the pool has. If the pool has \<open>n_envs\<close> of them, none of their
  resets raises and the observations have the pool's row shape, then \<open>reset\<close> resets
  each of them once in index order, allocates a new float32 observation array holding
  the initial observations cast to float32, allocates new reward and done arrays holding
  zeros and \<open>False\<close>, and returns a further new array holding the same rows as the
  observation array. The slots are the same environment objects as before and the store
  has no new environment.
\<close>

theorem EnvPool_reset_collects:
  assumes "reset_all sim (envs p) (env_cells h) = Inr (obs, es, cells)"
    and "length (envs p) = n_envs p"
    and "\<forall>ob \<in> set obs. shape ob = env_shape p"
  shows "EnvPool_reset sim f32 p h =
           Inr (arr_next h + 3,
                p\<lparr>envs := es, p_states := arr_next h, p_rewards := arr_next h + 1,
                  p_dones := arr_next h + 2\<rparr>,
                h\<lparr>env_cells := cells,
                  obs_arrays := (obs_arrays h)(arr_next h := map (astype f32) obs,
                                               arr_next h + 3 := map (astype f32) obs),
                  reward_arrays := (reward_arrays h)(arr_next h + 1 := replicate (n_envs p) 0),
                  done_arrays := (done_arrays h)(arr_next h + 2 := replicate (n_envs p) False),
                  arr_next := arr_next h + 4\<rparr>)
         \<and> length obs = n_envs p
         \<and> map slot_addr es = map slot_addr (envs p)"
  using assms by (rule EnvPool_reset_eq)

text \<open>
  C5 as amended, at a concrete input: the pool of three counting environments after
  its construction, with counts that start at 16777217. \<open>reset\<close> resets the three
  environments (their second episode begins, with the observations \<open>(16777217, 2)\<close>),
  stores the three rows \<open>(16777216, 2)\<close>, the observations cast to float32, in a new
  array at address 4, zeroed rewards and flags at 5 and 6, and returns a copy of the
  rows at 7.
\<close>

theorem EnvPool_reset_collects_witness:
  "reset_all (counter_sim [2] 16777217) (envs pool3) (env_cells heap3)
     = Inr (replicate 3 (NdArray [2] [16777217, 2]), envs pool3,
            (env_cells heap3)(1 := Counter 0 2, 2 := Counter 0 2, 3 := Counter 0 2))
   \<and> length (envs pool3) = n_envs pool3
   \<and> EnvPool_reset (counter_sim [2] 16777217) f32_example pool3 heap3
       = Inr (7, pool3\<lparr>p_states := 4, p_rewards := 5, p_dones := 6\<rparr>,
              heap3\<lparr>env_cells :=
                      (env_cells heap3)(1 := Counter 0 2, 2 := Counter 0 2, 3 := Counter 0 2),
                    obs_arrays := (obs_arrays heap3)
                      (4 := replicate 3 (NdArray [2] [16777216, 2]),
                       7 := replicate 3 (NdArray [2] [16777216, 2])),
                    reward_arrays := (reward_arrays heap3)(5 := [0, 0, 0]),
                    done_arrays := (done_arrays heap3)(6 := [False, False, False]),
                    arr_next := 8\<rparr>)"
proof -
  have all: "reset_all (counter_sim [2] 16777217) (envs pool3) (env_cells heap3)
     = Inr (replicate 3 (NdArray [2] [16777217, 2]), envs pool3,
            (env_cells heap3)(1 := Counter 0 2, 2 := Counter 0 2, 3 := Counter 0 2))"
    by (simp add: pool_defs example_defs eval_nat_numeral)
  have len: "length (envs pool3) = n_envs pool3" by (simp add: pool3_def)
  have shapes: "\<forall>ob \<in> set (replicate 3 (NdArray [2] [16777217, 2 :: real])).
                  shape ob = env_shape pool3"
    by (simp add: pool3_def)
  from EnvPool_reset_collects [OF all len shapes, of f32_example] all len show ?thesis
    by (simp add: pool3_def heap3_def astype_def f32_example_def eval_nat_numeral)
qed

text \<open>
  C5, as the claim states it, fails. \<open>reset\<close> does not replace the slot
  environments by copies of the template: after it the pool of three holds the same
  three environment objects, the store has no new environment, and each of them is in
  its second episode, while the template at address 0 was never reset. And the copies
  that the constructor makes are shallow: the two slots of a pool built from a
  \<open>FrameBuffer\<close> wrap the same environment (address 0), so that one \<open>step\<close> of the
  pool steps that environment twice and the two slots get the rewards 1 and 2; and the
  three slots of a pool built from an environment that keeps its counters in an inner
  object share that object, so that one \<open>step\<close> of the pool gives them the rewards 1,
  2 and 3.
\<close>

theorem EnvPool_reset_counterexample:
  "map_sum id (\<lambda>(c, p1, h1). (envs p1, env_next h1, map (env_cells h1) [0, 1, 2, 3]))
     (EnvPool_reset (counter_sim [2] 0) f32_example pool3 heap3)
     = Inr (envs pool3, env_next heap3, [Counter 0 0, Counter 0 2, Counter 0 2, Counter 0 2])
   \<and> map_sum id (\<lambda>(p, h). (map slot_addr (envs p), env_next h))
       (EnvPool_init (counter_sim [2] 0) f32_example (Framed buffer2) 2 start_heap)
       = Inr ([0, 0], 1)
   \<and> map_sum id (\<lambda>((c1, c2, c3), p1, h1). reward_arrays h1 c2)
       (and_then (EnvPool_init (counter_sim [2] 0) f32_example (Framed buffer2) 2 start_heap)
          (\<lambda>(p, h). EnvPool_step (counter_sim [2] 0) f32_example p [0, 0] h)) = Inr [1, 2]
   \<and> map_sum id (\<lambda>((c1, c2, c3), p1, h1). (envs p1, reward_arrays h1 c2))
       (and_then (EnvPool_init (counter_sim [2] 0) f32_example (Plain 0) 3 inner_heap)
          (\<lambda>(p, h). EnvPool_step (counter_sim [2] 0) f32_example p [0, 0, 0] h))
       = Inr ([Plain 2, Plain 3, Plain 4], [1, 2, 3])"
  by (simp add: pool_defs example_defs fb_defs Let_def eval_nat_numeral)

lemma copy_n_frame:
  "copy_n n e h = (cs, h1) \<Longrightarrow>
     length cs = n \<and> arr_next h1 = arr_next h \<and> obs_arrays h1 = obs_arrays h
     \<and> reward_arrays h1 = reward_arrays h \<and> done_arrays h1 = done_arrays h"
proof (induction n arbitrary: h cs h1)
  case 0
  then show ?case by simp
next
  case (Suc n)
  obtain c hm where c: "copy_env e h = (c, hm)" by (cases "copy_env e h")
  obtain cs' h' where r: "copy_n n e hm = (cs', h')" by (cases "copy_n n e hm")
  from c have "arr_next hm = arr_next h \<and> obs_arrays hm = obs_arrays h
     \<and> reward_arrays hm = reward_arrays h \<and> done_arrays hm = done_arrays h"
    by (auto simp: copy_env_def split: slot_env.splits)
  with Suc.IH [OF r] Suc.prems c r show ?case by auto
qed

text \<open>
  C10. Let the \<open>n\<close> copies that the constructor makes of the template be \<open>copies\<close>
  (shallow copies: what the template refers to, they refer to), and let resetting each
  of them once, in index order, succeed with the observations \<open>obs\<close>, each of the
  template's observation shape. Then the constructor returns a pool of \<open>n\<close> slots
  whose environments are exactly those reset once; its observation array holds the \<open>n\<close>
  initial observations cast to float32, its reward array \<open>n\<close> zeros, its done array \<open>n\<close>
  times \<open>False\<close>, and \<open>pool_states\<close> returns an array holding the same \<open>n\<close> rows, with
  no call of \<open>reset\<close> by the caller. Where the entries of the observations are float32
  numbers, the rows are the observations themselves.
\<close>

theorem EnvPool_init_resets:
  assumes "copy_n n template h = (copies, h0)"
    and "reset_all sim copies (env_cells h0) = Inr (obs, es, cells)"
    and "\<forall>ob \<in> set obs. shape ob = slot_shape sim template"
  shows "\<exists>p h1. EnvPool_init sim f32 template n h = Inr (p, h1)
           \<and> n_envs p = n \<and> envs p = es \<and> length es = n \<and> env_cells h1 = cells
           \<and> obs_arrays h1 (p_states p) = map (astype f32) obs \<and> length obs = n
           \<and> reward_arrays h1 (p_rewards p) = replicate n 0
           \<and> done_arrays h1 (p_dones p) = replicate n False
           \<and> obs_arrays (snd (pool_states p h1)) (fst (pool_states p h1)) = map (astype f32) obs
           \<and> ((\<forall>ob \<in> set obs. \<forall>x \<in> set (data ob). f32 x = x) \<longrightarrow>
                 obs_arrays h1 (p_states p) = obs
                 \<and> obs_arrays (snd (pool_states p h1)) (fst (pool_states p h1)) = obs)"
proof -
  let ?p0 = "\<lparr>initial_env = template, n_envs = n, env_shape = slot_shape sim template,
              envs = [], p_states = 0, p_rewards = 0, p_dones = 0\<rparr>"
  let ?p1 = "?p0\<lparr>envs := copies\<rparr>"
  let ?rows = "map (astype f32) obs"
  from copy_n_frame [OF assms(1)] have len: "length copies = n" by simp
  have made: "recreate_envs sim ?p0 h = Inr (?p1, h0)"
    using assms(1) by (simp add: recreate_envs_def EnvPool_close_def)
  have "reset_all sim (envs ?p1) (env_cells h0) = Inr (obs, es, cells)"
    "length (envs ?p1) = n_envs ?p1" "\<forall>ob \<in> set obs. shape ob = env_shape ?p1"
    using assms(2,3) len by simp_all
  from EnvPool_reset_eq [OF this, of f32]
  obtain c p h1 where r: "EnvPool_reset sim f32 ?p1 h0 = Inr (c, p, h1)"
    and p: "p = ?p1\<lparr>envs := es, p_states := arr_next h0, p_rewards := arr_next h0 + 1,
                  p_dones := arr_next h0 + 2\<rparr>"
    and h1: "h1 = h0\<lparr>env_cells := cells,
                  obs_arrays := (obs_arrays h0)(arr_next h0 := ?rows, arr_next h0 + 3 := ?rows),
                  reward_arrays := (reward_arrays h0)(arr_next h0 + 1 := replicate (n_envs ?p1) 0),
                  done_arrays := (done_arrays h0)(arr_next h0 + 2 := replicate (n_envs ?p1) False),
                  arr_next := arr_next h0 + 4\<rparr>"
    and lens: "length obs = n_envs ?p1" "map slot_addr es = map slot_addr (envs ?p1)"
    by blast
  from lens len have "length es = n" using map_eq_imp_length_eq by fastforce
  moreover have "EnvPool_init sim f32 template n h = Inr (p, h1)"
    using made r by (simp add: EnvPool_init_def Let_def)
  moreover have "?rows = obs" if "\<forall>ob \<in> set obs. \<forall>x \<in> set (data ob). f32 x = x"
    using that by (simp add: astype_exact map_idI)
  ultimately show ?thesis using lens(1)
    by (intro exI [of _ p] exI [of _ h1]) (simp add: p h1 pool_states_def new_obs_array_def)
qed

text \<open>
  C10 at a concrete input: three slots from an environment, at address 0, that keeps
  its counters in the inner object at address 1. The constructor makes the environments
  2, 3 and 4, which all refer to that inner object, and resets each once: the resets
  begin the episodes 1, 2 and 3 of the inner object, and \<open>pool_states\<close> returns the
  observations \<open>(0, 1)\<close>, \<open>(0, 2)\<close> and \<open>(0, 3)\<close>. From the environment of
  \<open>start_heap\<close>, which keeps its counters itself, the constructor makes the pool
  \<open>pool3\<close> and the store \<open>heap3\<close>: each copy is in its first episode.
\<close>

theorem EnvPool_init_resets_witness:
  "copy_n 3 (Plain 0) inner_heap
     = ([Plain 2, Plain 3, Plain 4],
        inner_heap\<lparr>env_cells := (env_cells inner_heap)(2 := Shared 1, 3 := Shared 1, 4 := Shared 1),
                   env_next := 5\<rparr>)
   \<and> reset_all (counter_sim [2] 0) [Plain 2, Plain 3, Plain 4]
        ((env_cells inner_heap)(2 := Shared 1, 3 := Shared 1, 4 := Shared 1))
       = Inr ([NdArray [2] [0, 1], NdArray [2] [0, 2], NdArray [2] [0, 3]],
              [Plain 2, Plain 3, Plain 4],
              (env_cells inner_heap)(2 := Shared 1, 3 := Shared 1, 4 := Shared 1,
                                     1 := Counter 0 3))
   \<and> map_sum id
        (\<lambda>(p, h). (envs p, map (env_cells h) [0, 1, 2, 3, 4], obs_arrays h (p_states p),
                   reward_arrays h (p_rewards p), done_arrays h (p_dones p),
                   obs_arrays (snd (pool_states p h)) (fst (pool_states p h))))
        (EnvPool_init (counter_sim [2] 0) f32_example (Plain 0) 3 inner_heap)
       = Inr ([Plain 2, Plain 3, Plain 4],
              [Shared 1, Counter 0 3, Shared 1, Shared 1, Shared 1],
              [NdArray [2] [0, 1], NdArray [2] [0, 2], NdArray [2] [0, 3]],
              [0, 0, 0], [False, False, False],
              [NdArray [2] [0, 1], NdArray [2] [0, 2], NdArray [2] [0, 3]])
   \<and> map_sum id (\<lambda>(p, h). (p, heap_view h))
        (EnvPool_init (counter_sim [2] 0) f32_example (Plain 0) 3 start_heap)
       = Inr (pool3, heap_view heap3)
   \<and> obs_arrays (snd (pool_states pool3 heap3)) (fst (pool_states pool3 heap3))
       = replicate 3 (NdArray [2] [0, 1])"
proof -
  let ?cells = "(env_cells inner_heap)(2 := Shared 1, 3 := Shared 1, 4 := Shared 1)"
  let ?h0 = "inner_heap\<lparr>env_cells := ?cells, env_next := 5\<rparr>"
  let ?obs = "[NdArray [2] [0, 1], NdArray [2] [0, 2], NdArray [2] [0, 3 :: real]]"
  have copies: "copy_n 3 (Plain 0) inner_heap = ([Plain 2, Plain 3, Plain 4], ?h0)"
    by (simp add: pool_defs example_defs eval_nat_numeral Let_def)
  have all: "reset_all (counter_sim [2] 0) [Plain 2, Plain 3, Plain 4] (env_cells ?h0)
       = Inr (?obs, [Plain 2, Plain 3, Plain 4], ?cells(1 := Counter 0 3))"
    by (simp add: pool_defs example_defs eval_nat_numeral)
  have shapes: "\<forall>ob \<in> set ?obs. shape ob = slot_shape (counter_sim [2] 0) (Plain 0)"
    by (simp add: pool_defs example_defs)
  from EnvPool_init_resets [OF copies all shapes, of f32_example] copies all show ?thesis
    by (simp add: pool_defs example_defs Let_def eval_nat_numeral)
qed

section \<open>Returned arrays are copies\<close>

lemma EnvPool_reset_eq_Inr:
  "EnvPool_reset sim f32 p h = Inr (c, p1, h1) \<longleftrightarrow>
     (\<exists>es h4.
        reset_loop sim f32
          (p\<lparr>p_states := arr_next h, p_rewards := Suc (arr_next h),
             p_dones := Suc (Suc (arr_next h))\<rparr>) 0 (envs p)
          (h\<lparr>obs_arrays := (obs_arrays h)(arr_next h := replicate (n_envs p) (zeros (env_shape p))),
             reward_arrays := (reward_arrays h)(Suc (arr_next h) := replicate (n_envs p) 0),
             done_arrays := (done_arrays h)(Suc (Suc (arr_next h)) := replicate (n_envs p) False),
             arr_next := Suc (Suc (Suc (arr_next h)))\<rparr>) = Inr (es, h4)
        \<and> c = arr_next h4
        \<and> p1 = p\<lparr>p_states := arr_next h, p_rewards := Suc (arr_next h),
                  p_dones := Suc (Suc (arr_next h)), envs := es\<rparr>
        \<and> h1 = h4\<lparr>obs_arrays := (obs_arrays h4)(arr_next h4 := obs_arrays h4 (arr_next h)),
                   arr_next := Suc (arr_next h4)\<rparr>)"
  by (auto simp: EnvPool_reset_def and_then_eq_Inr new_obs_array_def new_reward_array_def
      new_done_array_def Let_def)

lemma pool_states_copies:
  assumes "pool_alloc p h" and "pool_states p h = (a, h1)"
  shows "pool_alloc p h1 \<and> returned_copies h p h1 ([a], [], []) \<and> held_arrays_kept p h h1"
  using assms
  by (auto simp: pool_alloc_def pool_states_def new_obs_array_def returned_copies_def
      held_arrays_kept_def)

lemma EnvPool_step_copies:
  assumes "pool_alloc p h" and "EnvPool_step sim f32 p actions h = Inr ((c1, c2, c3), p1, h1)"
  shows "pool_alloc p1 h1 \<and> returned_copies h p1 h1 ([c1], [c2], [c3])
         \<and> held_arrays_kept p h h1"
proof -
  from assms(2) obtain es hl where
    loop: "step_loop sim f32 p 0 (zip actions (envs p)) h = Inr (es, hl)"
    and c: "c1 = arr_next hl" "c2 = Suc (arr_next hl)" "c3 = Suc (Suc (arr_next hl))"
    and p1: "p1 = p\<lparr>envs := es @ drop (length es) (envs p)\<rparr>"
    and h1: "h1 = hl\<lparr>obs_arrays := (obs_arrays hl)(arr_next hl := obs_arrays hl (p_states p)),
                   reward_arrays :=
                     (reward_arrays hl)(Suc (arr_next hl) := reward_arrays hl (p_rewards p)),
                   done_arrays :=
                     (done_arrays hl)(Suc (Suc (arr_next hl)) := done_arrays hl (p_dones p)),
                   arr_next := Suc (Suc (Suc (arr_next hl)))\<rparr>"
    unfolding EnvPool_step_eq_Inr by blast
  from step_loop_rows [OF loop]
  have next_eq: "arr_next hl = arr_next h"
    and others: "\<And>a. a \<noteq> p_states p \<Longrightarrow> obs_arrays hl a = obs_arrays h a"
      "\<And>a. a \<noteq> p_rewards p \<Longrightarrow> reward_arrays hl a = reward_arrays h a"
      "\<And>a. a \<noteq> p_dones p \<Longrightarrow> done_arrays hl a = done_arrays h a"
    unfolding rows_changed_def by simp_all
  from assms(1) next_eq have "pool_alloc p1 h1"
    by (simp add: pool_alloc_def p1 h1)
  moreover from assms(1) next_eq have "returned_copies h p1 h1 ([c1], [c2], [c3])"
    by (simp add: pool_alloc_def returned_copies_def p1 h1 c)
  moreover from assms(1) next_eq others have "held_arrays_kept p h h1"
    by (simp add: pool_alloc_def held_arrays_kept_def h1)
  ultimately show ?thesis by simp
qed

lemma EnvPool_reset_copies:
  assumes "pool_alloc p h" and "EnvPool_reset sim f32 p h = Inr (c, p1, h1)"
  shows "pool_alloc p1 h1 \<and> returned_copies h p1 h1 ([c], [], [])
         \<and> held_arrays_kept p h h1"
proof -
  let ?p1 = "p\<lparr>p_states := arr_next h, p_rewards := Suc (arr_next h),
             p_dones := Suc (Suc (arr_next h))\<rparr>"
  let ?h3 = "h\<lparr>obs_arrays := (obs_arrays h)(arr_next h := replicate (n_envs p) (zeros (env_shape p))),
             reward_arrays := (reward_arrays h)(Suc (arr_next h) := replicate (n_envs p) 0),
             done_arrays := (done_arrays h)(Suc (Suc (arr_next h)) := replicate (n_envs p) False),
             arr_next := Suc (Suc (Suc (arr_next h)))\<rparr>"
  from assms(2) obtain es h4 where
    loop: "reset_loop sim f32 ?p1 0 (envs p) ?h3 = Inr (es, h4)"
    and c: "c = arr_next h4"
    and p1: "p1 = ?p1\<lparr>envs := es\<rparr>"
    and h1: "h1 = h4\<lparr>obs_arrays := (obs_arrays h4)(arr_next h4 := obs_arrays h4 (arr_next h)),
                   arr_next := Suc (arr_next h4)\<rparr>"
    unfolding EnvPool_reset_eq_Inr by auto
  from reset_loop_rows [OF loop]
  have next_eq: "arr_next h4 = Suc (Suc (Suc (arr_next h)))"
    and others: "\<And>a. a \<noteq> arr_next h \<Longrightarrow> obs_arrays h4 a = obs_arrays ?h3 a"
      "\<And>a. a \<noteq> Suc (arr_next h) \<Longrightarrow> reward_arrays h4 a = reward_arrays ?h3 a"
      "\<And>a. a \<noteq> Suc (Suc (arr_next h)) \<Longrightarrow> done_arrays h4 a = done_arrays ?h3 a"
    unfolding rows_changed_def by simp_all
  have "pool_alloc p1 h1"
    using next_eq by (simp add: pool_alloc_def p1 h1)
  moreover have "returned_copies h p1 h1 ([c], [], [])"
    using next_eq by (simp add: returned_copies_def p1 h1 c)
  moreover have "held_arrays_kept p h h1"
    using next_eq others by (simp add: held_arrays_kept_def h1)
  ultimately show ?thesis by simp
qed

text \<open>
  C4. Let the pool's three arrays be allocated, and let a call of \<open>reset\<close>, \<open>step\<close>
  or \<open>pool_states\<close> return. Every array it returns was allocated by that call, is
  another object than the pool's own array, holds what the pool's own array holds, and a
  write to it leaves the pool's own array as it is. Every array that existed before the
  call, other than the pool's own three, holds after the call what it held before: so
  arrays returned earlier are not touched. The pool's arrays are allocated after the
  call as well, so the same holds for every later call. Two calls of \<open>pool_states\<close>
  in a row return two different arrays with the same contents.
\<close>

theorem EnvPool_returns_copies:
  assumes "pool_alloc p h" and "pool_call sim f32 c p h = Inr (ret, p1, h1)"
  shows "pool_alloc p1 h1 \<and> returned_copies h p1 h1 ret \<and> held_arrays_kept p h h1
         \<and> (let (a1, h2) = pool_states p h; (a2, h3) = pool_states p h2
            in a1 \<noteq> a2 \<and> obs_arrays h3 a1 = obs_arrays h3 a2
               \<and> obs_arrays h3 a1 = obs_arrays h (p_states p)
               \<and> obs_arrays h3 (p_states p) = obs_arrays h (p_states p))"
proof -
  have main: "pool_alloc p1 h1 \<and> returned_copies h p1 h1 ret \<and> held_arrays_kept p h h1"
  proof (cases c)
    case CallPoolReset
    with assms(2) obtain a where "EnvPool_reset sim f32 p h = Inr (a, p1, h1)" "ret = ([a], [], [])"
      by (auto simp: pool_call_def and_then_eq_Inr)
    with EnvPool_reset_copies [OF assms(1)] show ?thesis by blast
  next
    case (CallPoolStep actions)
    with assms(2) obtain c1 c2 c3 where
      "EnvPool_step sim f32 p actions h = Inr ((c1, c2, c3), p1, h1)" "ret = ([c1], [c2], [c3])"
      by (auto simp: pool_call_def and_then_eq_Inr)
    with EnvPool_step_copies [OF assms(1)] show ?thesis by blast
  next
    case CallPoolStates
    with assms(2) obtain a where "pool_states p h = (a, h1)" "ret = ([a], [], [])" "p1 = p"
      by (auto simp: pool_call_def Let_def split: prod.splits)
    with pool_states_copies [OF assms(1)] show ?thesis by blast
  qed
  from assms(1) have "let (a1, h2) = pool_states p h; (a2, h3) = pool_states p h2
            in a1 \<noteq> a2 \<and> obs_arrays h3 a1 = obs_arrays h3 a2
               \<and> obs_arrays h3 a1 = obs_arrays h (p_states p)
               \<and> obs_arrays h3 (p_states p) = obs_arrays h (p_states p)"
    by (auto simp: pool_alloc_def pool_states_def new_obs_array_def)
  with main show ?thesis by simp
qed

text \<open>
  C4 at a concrete input: \<open>step\<close> on the pool of three returns the new arrays 4, 5
  and 6. Array 4 holds what the pool's observation array holds; emptying array 4 leaves
  the pool's array as it is; array 3, returned by the constructor's \<open>reset\<close>, is
  unchanged. Two calls of \<open>pool_states\<close> return the arrays 4 and 5 with equal
  contents.
\<close>

theorem EnvPool_returns_copies_witness:
  "pool_alloc pool3 heap3
   \<and> map_sum id
        (\<lambda>(ret, p1, h1).
           (ret, obs_arrays h1 4, obs_arrays h1 (p_states p1),
            obs_arrays (h1\<lparr>obs_arrays := (obs_arrays h1)(4 := [])\<rparr>) (p_states p1),
            obs_arrays h1 3))
        (pool_call (counter_sim [2] 0) f32_example (CallPoolStep [0, 1, 0]) pool3 heap3)
       = Inr (([4], [5], [6]),
              [NdArray [2] [1, 1], NdArray [2] [0, 2], NdArray [2] [1, 1]],
              [NdArray [2] [1, 1], NdArray [2] [0, 2], NdArray [2] [1, 1]],
              [NdArray [2] [1, 1], NdArray [2] [0, 2], NdArray [2] [1, 1]],
              obs_arrays heap3 3)
   \<and> fst (pool_states pool3 heap3) = 4
   \<and> fst (pool_states pool3 (snd (pool_states pool3 heap3))) = 5
   \<and> obs_arrays (snd (pool_states pool3 (snd (pool_states pool3 heap3)))) 4
       = obs_arrays (snd (pool_states pool3 (snd (pool_states pool3 heap3)))) 5"
proof -
  let ?r = "projr (pool_call (counter_sim [2] 0) f32_example (CallPoolStep [0, 1, 0]) pool3 heap3)"
  have alloc: "pool_alloc pool3 heap3"
    by (simp add: pool_alloc_def example_defs)
  have run: "pool_call (counter_sim [2] 0) f32_example (CallPoolStep [0, 1, 0]) pool3 heap3
             = Inr (([4], [5], [6]), fst (snd ?r), snd (snd ?r))"
    by (simp add: pool_defs example_defs Let_def)
  from EnvPool_returns_copies [OF alloc run] alloc show ?thesis
    by (simp add: pool_defs example_defs Let_def eval_nat_numeral)
qed

section \<open>The range and shape of a preprocessed image\<close>

lemma rounding_range:
  assumes "rounding r" and "0 \<le> x" and "x \<le> 255"
  shows "0 \<le> r x \<and> r x \<le> 255"
  using assms monoD [of r 0 x] monoD [of r x 255] by (auto simp: rounding_def)

lemma rounding_unit:
  assumes "rounding r" and "0 \<le> x" and "x \<le> 1"
  shows "0 \<le> r x \<and> r x \<le> 1"
  using assms monoD [of r 0 x] monoD [of r x 1] by (auto simp: rounding_def)

lemma sum_list_bounds:
  assumes "\<forall>v \<in> set xs. 0 \<le> v \<and> v \<le> (b::int)"
  shows "0 \<le> sum_list xs \<and> sum_list xs \<le> int (length xs) * b"
  using assms by (induction xs) (auto simp: algebra_simps)

lemma mean_bounds:
  assumes "\<forall>v \<in> set xs. 0 \<le> v \<and> v \<le> (255::int)" and "length xs \<le> c"
  shows "0 \<le> real_of_int (sum_list xs) / real c \<and> real_of_int (sum_list xs) / real c \<le> 255"
proof (cases "c = 0")
  case True
  then show ?thesis by simp
next
  case False
  from sum_list_bounds [OF assms(1)] assms(2)
  have "0 \<le> sum_list xs" and "sum_list xs \<le> int c * 255"
    by (auto intro: order_trans [of _ "int (length xs) * 255"])
  then have "0 \<le> real_of_int (sum_list xs)"
    and "real_of_int (sum_list xs) \<le> real_of_int (int c * 255)"
    by (simp_all only: of_int_le_iff of_int_0_le_iff)
  with False show ?thesis by (simp add: field_simps)
qed

lemma set_chunks:
  "ch \<in> set (chunks n c xs) \<Longrightarrow> set ch \<subseteq> set xs \<and> length ch \<le> c"
proof (induction n arbitrary: xs)
  case 0
  then show ?case by simp
next
  case (Suc n)
  then show ?case
    by (auto dest: in_set_takeD in_set_dropD)
qed

lemma chunks_replicate: "chunks n c (replicate (n * c) x) = replicate n (replicate c x)"
proof (induction n)
  case 0
  then show ?case by simp
next
  case (Suc n)
  have "drop c (replicate (Suc n * c) x) = replicate (n * c) x" by simp
  with Suc show ?case by (simp add: min_def)
qed

lemma sum_list_replicate_int: "sum_list (replicate c (x :: int)) = int c * x"
  by (induction c) (simp_all add: algebra_simps)

lemma mean_last_range:
  assumes "rounding r64" and "mean_last r64 x = Inr y" and "pixel_range x"
  shows "\<forall>v \<in> set (data y). 0 \<le> v \<and> v \<le> 255"
proof
  fix v assume v: "v \<in> set (data y)"
  let ?c = "last (shape x)" and ?n = "prod_list (butlast (shape x))"
  from assms(2)
  have "data y = map (\<lambda>ch. r64 (real_of_int (sum_list ch) / real ?c)) (chunks ?n ?c (data x))"
    by (auto simp: mean_last_def Let_def split: if_splits)
  with v obtain ch where ch: "ch \<in> set (chunks ?n ?c (data x))"
    and v_eq: "v = r64 (real_of_int (sum_list ch) / real ?c)" by auto
  from set_chunks [OF ch] assms(3) have "\<forall>u \<in> set ch. 0 \<le> u \<and> u \<le> 255" "length ch \<le> ?c"
    by (auto simp: pixel_range_def)
  from mean_bounds [OF this] rounding_range [OF assms(1)] v_eq
  show "0 \<le> v \<and> v \<le> 255" by simp
qed

lemma shape_mean_last: "mean_last r64 x = Inr y \<Longrightarrow> shape y = butlast (shape x) @ [1]"
  by (auto simp: mean_last_def Let_def split: if_splits)

text \<open>
  C9. Let rounding to float64 and to float32 be monotone and exact on 0, 1 and 255, let
  the crop function and the resize keep pixel values within 0..255, and let the raw image
  have its pixel values in 0..255. If \<open>_observation\<close> returns, every value of its
  result lies between 0 and 1. If moreover the resize keeps the number of channels, the
  wrapper is grayscale with the target size 64 by 64 and the cropped image has three
  channels, the result has the shape \<open>(64, 64, 1)\<close>.
\<close>

theorem observation_range_and_shape:
  assumes "rounding r64" and "rounding r32"
    and "keeps_range (crop w)" and "keeps_range (\<lambda>x. imresize x (img_size w))"
    and "pixel_range img"
    and "observation r64 r32 imresize w img = Inr out"
  shows "(\<forall>v \<in> set (data out). 0 \<le> v \<and> v \<le> 1)
         \<and> (\<forall>img1 a b.
               keeps_channels imresize \<and> grayscale w \<and> img_size w = (64, 64)
               \<and> crop w img = Inr img1 \<and> shape img1 = [a, b, 3]
               \<longrightarrow> shape out = [64, 64, 1])"
proof -
  from assms(6) obtain img1 img2 img3 where
    cropped: "crop w img = Inr img1"
    and resized: "imresize img1 (img_size w) = Inr img2"
    and reduced: "(if grayscale w then mean_last r64 img2
                   else Inr (NdArray (shape img2) (map real_of_int (data img2)))) = Inr img3"
    and out: "out = NdArray (shape img3) (map (\<lambda>v. r32 (r32 v / 255)) (data img3))"
    unfolding observation_def and_then_eq_Inr by blast
  from assms(3,5) cropped have "pixel_range img1" unfolding keeps_range_def by blast
  with assms(4) resized have pix: "pixel_range img2" unfolding keeps_range_def by blast
  have img3: "\<forall>v \<in> set (data img3). 0 \<le> v \<and> v \<le> 255"
  proof (cases "grayscale w")
    case True
    with reduced have "mean_last r64 img2 = Inr img3" by simp
    from mean_last_range [OF assms(1) this pix] show ?thesis .
  next
    case False
    with reduced pix show ?thesis by (auto simp: pixel_range_def)
  qed
  have range: "\<forall>v \<in> set (data out). 0 \<le> v \<and> v \<le> 1"
  proof
    fix v assume "v \<in> set (data out)"
    with out obtain u where u: "u \<in> set (data img3)" and v: "v = r32 (r32 u / 255)" by auto
    from img3 u rounding_range [OF assms(2), of u]
    have "0 \<le> r32 u / 255 \<and> r32 u / 255 \<le> 1" by simp
    with rounding_unit [OF assms(2)] v show "0 \<le> v \<and> v \<le> 1" by simp
  qed
  have shp: "shape out = [64, 64, 1]"
    if "keeps_channels imresize" "grayscale w" "img_size w = (64, 64)"
      "crop w img = Inr img1'" "shape img1' = [a, b, 3]" for img1' a b
  proof -
    from that cropped have "shape img1 = [a, b, 3]" by simp
    with that(1,3) resized have "shape img2 = [64, 64, 3]"
      unfolding keeps_channels_def by metis
    with reduced that(2) shape_mean_last [of r64 img2 img3] out show ?thesis by simp
  qed
  from range shp show ?thesis by blast
qed

lemma rounding_id: "rounding (\<lambda>x. x)"
  by (simp add: rounding_def mono_def)

lemma keeps_range_Inr: "keeps_range Inr"
  by (simp add: keeps_range_def)

lemma keeps_range_fill: "keeps_range (\<lambda>x. fill_resize x hw)"
  unfolding keeps_range_def pixel_range_def fill_resize_def
  by (auto split: list.splits)

lemma keeps_channels_fill: "keeps_channels fill_resize"
  unfolding keeps_channels_def fill_resize_def
  by (auto split: list.splits)

text \<open>
  C9 at a concrete input: a grayscale wrapper with the target size 64 by 64, no crop
  function, exact arithmetic, and an image of one pixel with the three channels at 51.
  The result has the shape \<open>(64, 64, 1)\<close> and all its values are 51 / 255 = 1 / 5.
\<close>

theorem observation_range_and_shape_witness:
  "rounding (\<lambda>x. x) \<and> keeps_range (crop (PreprocessImage_init 64 64 True None))
   \<and> keeps_range (\<lambda>x. fill_resize x (img_size (PreprocessImage_init 64 64 True None)))
   \<and> keeps_channels fill_resize
   \<and> pixel_range (NdArray [1, 1, 3] [51, 51, 51])
   \<and> observation (\<lambda>x. x) (\<lambda>x. x) fill_resize (PreprocessImage_init 64 64 True None)
        (NdArray [1, 1, 3] [51, 51, 51])
       = Inr (NdArray [64, 64, 1] (replicate 4096 (1 / 5)))
   \<and> (1 / 5 :: real) \<in> set (replicate 4096 (1 / 5))
   \<and> 0 \<le> (1 / 5 :: real) \<and> (1 / 5 :: real) \<le> 1"
proof -
  let ?w = "PreprocessImage_init 64 64 True None"
  let ?img = "NdArray [1, 1, 3] [51, 51, 51 :: int]"
  have k1: "keeps_range (crop ?w)"
    by (simp add: PreprocessImage_init_def keeps_range_Inr)
  have k2: "keeps_range (\<lambda>x. fill_resize x (img_size ?w))" by (rule keeps_range_fill)
  have pr: "pixel_range ?img" by (simp add: pixel_range_def)
  have "chunks (64 * 64) 3 (replicate (64 * 64 * 3) (51 :: int)) = replicate (64 * 64) (replicate 3 51)"
    by (rule chunks_replicate)
  then have ch: "chunks 4096 3 (replicate 12288 (51 :: int)) = replicate 4096 (replicate 3 51)"
    by simp
  have run: "observation (\<lambda>x. x) (\<lambda>x. x) fill_resize ?w ?img
       = Inr (NdArray [64, 64, 1] (replicate 4096 (1 / 5)))"
    by (simp add: observation_def PreprocessImage_init_def fill_resize_def mean_last_def ch
        sum_list_replicate_int)
  from observation_range_and_shape [OF rounding_id rounding_id k1 k2 pr run]
    rounding_id k1 k2 keeps_channels_fill pr run
  show ?thesis by simp
qed

end
